theory Spec2Isabelle
  imports Main "HOL-Library.Word" "HOL-Library.Monad_Syntax"
begin

unbundle bit_operations_syntax

section \<open>Data model\<close>

text \<open>
  A \<open>Shape\<close> is a \<open>TinyVector<MultiArrayIndex, N>\<close>: \<open>N\<close> signed coordinates.  It is a
  list of \<open>N\<close> integers here.  \<open>MultiArrayIndex\<close> is a signed type whose overflow is
  undefined in C++, so its values are unbounded integers.  Border codes, table sizes and
  neighbor counts are \<open>unsigned int\<close>: 32-bit words.  Template parameters (\<open>N\<close>,
  \<open>Level\<close>, \<open>DIMENSION\<close>) are natural numbers.

  The masks \<open>1 << 2*Level\<close> and \<open>2 << 2*Level\<close> are combined with an \<open>unsigned int\<close>;
  they are shifts of the 32-bit word here.  The C++ shift is defined as long as the mask
  fits the 32 bits, which is the case for every level of an instantiation with
  \<open>N \<le> 16\<close>; the table size \<open>1 << 2*N\<close> fits for \<open>N \<le> 15\<close>.
\<close>

type_synonym shape = "int list"
type_synonym uint = "32 word"

datatype NeighborhoodType = DirectNeighborhood | IndirectNeighborhood

text \<open>
  Modelled from the spec: the default constructor of \<open>TinyVector\<close> (tinyvector.hxx) is
  missing from the sources; the enumerators rely on \<open>Shape point;\<close> having every
  coordinate "defaulted", that is zero.
\<close>

definition defaultShape :: "nat \<Rightarrow> shape" where
  "defaultShape N = replicate N 0"

text \<open>
  Modelled from the spec: \<open>dot\<close> and \<open>cumprod\<close> on \<open>TinyVector\<close> (tinyvector.hxx) are
  missing from the sources; the spec takes the dot product (offset \<open>\<cdot>\<close> stride gives a
  scalar displacement) and the cumulative product as given primitives.
\<close>

definition dot :: "shape \<Rightarrow> shape \<Rightarrow> int" where
  "dot l r = sum_list (map2 (*) l r)"

fun cumprodFrom :: "int \<Rightarrow> shape \<Rightarrow> shape" where
  "cumprodFrom acc [] = []"
| "cumprodFrom acc (x # xs) = (acc * x) # cumprodFrom (acc * x) xs"

definition cumprod :: "shape \<Rightarrow> shape" where
  "cumprod v = cumprodFrom 1 v"

text \<open>\<open>Shape strides = cumprod(Shape(MultiArrayIndex(3))) / 3;\<close>\<close>

definition naturalStrides :: "nat \<Rightarrow> shape" where
  "naturalStrides N = map (\<lambda>x. x div 3) (cumprod (replicate N 3))"

section \<open>BorderTypeImpl\<close>

text \<open>
  \<open>BorderTypeImpl<N, DIMENSION>::exec(point, shape)\<close>, by recursion on \<open>DIMENSION\<close> with
  the specialisation for \<open>DIMENSION = 0\<close> first.  \<open>1 << 2*DIMENSION\<close> and
  \<open>2 << 2*DIMENSION\<close> are or-ed into the \<open>unsigned int\<close> result.
\<close>

fun BorderTypeImpl :: "nat \<Rightarrow> shape \<Rightarrow> shape \<Rightarrow> uint" where
  "BorderTypeImpl 0 point shp =
     (let res = 0;
          res = (if point ! 0 = 0 then res OR push_bit (2 * 0) 1 else res);
          res = (if point ! 0 = shp ! 0 - 1 then res OR push_bit (2 * 0) 2 else res)
      in res)"
| "BorderTypeImpl (Suc D) point shp =
     (let res = BorderTypeImpl D point shp;
          res = (if point ! Suc D = 0 then res OR push_bit (2 * Suc D) 1 else res);
          res = (if point ! Suc D = shp ! Suc D - 1 then res OR push_bit (2 * Suc D) 2 else res)
      in res)"

section \<open>The direct neighborhood\<close>

text \<open>
  \<open>MakeDirectArrayNeighborhood<Level>::offsets(a)\<close> appends to the array \<open>a\<close>; the array
  is passed in and returned.  \<open>N\<close> is the static size of the array's \<open>Shape\<close>.
\<close>

fun MakeDirectArrayNeighborhood_offsets :: "nat \<Rightarrow> nat \<Rightarrow> shape list \<Rightarrow> shape list" where
  "MakeDirectArrayNeighborhood_offsets N 0 a =
     (let point = defaultShape N;
          point = point[0 := - 1];
          a = a @ [point];
          point = point[0 := 1];
          a = a @ [point]
      in a)"
| "MakeDirectArrayNeighborhood_offsets N (Suc L) a =
     (let point = defaultShape N;
          point = point[Suc L := - 1];
          a = a @ [point];
          a = MakeDirectArrayNeighborhood_offsets N L a;
          point = point[Suc L := 1];
          a = a @ [point]
      in a)"

text \<open>\<open>MakeDirectArrayNeighborhood<Level>::exists(a, borderType)\<close>\<close>

fun MakeDirectArrayNeighborhood_exists :: "nat \<Rightarrow> bool list \<Rightarrow> uint \<Rightarrow> bool list" where
  "MakeDirectArrayNeighborhood_exists 0 a borderType =
     (let a = a @ [(borderType AND 1) = 0];
          a = a @ [(borderType AND 2) = 0]
      in a)"
| "MakeDirectArrayNeighborhood_exists (Suc L) a borderType =
     (let a = a @ [(borderType AND push_bit (2 * Suc L) 1) = 0];
          a = MakeDirectArrayNeighborhood_exists L a borderType;
          a = a @ [(borderType AND push_bit (2 * Suc L) 2) = 0]
      in a)"

section \<open>The indirect neighborhood\<close>

text \<open>
  \<open>MakeIndirectArrayNeighborhood<Level>::offsets(a, point, isCenter)\<close>: \<open>point\<close> is passed
  by value, \<open>a\<close> by reference.
\<close>

fun MakeIndirectArrayNeighborhood_offsets ::
  "nat \<Rightarrow> shape list \<Rightarrow> shape \<Rightarrow> bool \<Rightarrow> shape list" where
  "MakeIndirectArrayNeighborhood_offsets 0 a point isCenter =
     (let point = point[0 := - 1];
          a = a @ [point];
          (a, point) = (if \<not> isCenter
                        then (let point = point[0 := 0] in (a @ [point], point))
                        else (a, point));
          point = point[0 := 1];
          a = a @ [point]
      in a)"
| "MakeIndirectArrayNeighborhood_offsets (Suc L) a point isCenter =
     (let point = point[Suc L := - 1];
          a = MakeIndirectArrayNeighborhood_offsets L a point False;
          point = point[Suc L := 0];
          a = MakeIndirectArrayNeighborhood_offsets L a point isCenter;
          point = point[Suc L := 1];
          a = MakeIndirectArrayNeighborhood_offsets L a point False
      in a)"

text \<open>\<open>MakeIndirectArrayNeighborhood<Level>::markOutside(a)\<close>\<close>

fun MakeIndirectArrayNeighborhood_markOutside :: "nat \<Rightarrow> bool list \<Rightarrow> bool list" where
  "MakeIndirectArrayNeighborhood_markOutside 0 a =
     (let a = a @ [False];
          a = a @ [False];
          a = a @ [False]
      in a)"
| "MakeIndirectArrayNeighborhood_markOutside (Suc L) a =
     (let a = MakeIndirectArrayNeighborhood_markOutside L a;
          a = MakeIndirectArrayNeighborhood_markOutside L a;
          a = MakeIndirectArrayNeighborhood_markOutside L a
      in a)"

text \<open>\<open>MakeIndirectArrayNeighborhood<Level>::exists(a, borderType, isCenter)\<close>\<close>

fun MakeIndirectArrayNeighborhood_exists :: "nat \<Rightarrow> bool list \<Rightarrow> uint \<Rightarrow> bool \<Rightarrow> bool list" where
  "MakeIndirectArrayNeighborhood_exists 0 a borderType isCenter =
     (let a = a @ [(borderType AND 1) = 0];
          a = (if \<not> isCenter then a @ [True] else a);
          a = a @ [(borderType AND 2) = 0]
      in a)"
| "MakeIndirectArrayNeighborhood_exists (Suc L) a borderType isCenter =
     (let a = (if (borderType AND push_bit (2 * Suc L) 1) = 0
               then MakeIndirectArrayNeighborhood_exists L a borderType False
               else MakeIndirectArrayNeighborhood_markOutside L a);
          a = MakeIndirectArrayNeighborhood_exists L a borderType isCenter;
          a = (if (borderType AND push_bit (2 * Suc L) 2) = 0
               then MakeIndirectArrayNeighborhood_exists L a borderType False
               else MakeIndirectArrayNeighborhood_markOutside L a)
      in a)"

section \<open>Array containers\<close>

text \<open>
  Modelled from the spec: \<open>ArrayVector\<close> (array_vector.hxx) is missing from the sources.
  The tables are "ordered sequences" that the build appends to; \<open>ArrayVector\<close> has the
  interface of \<open>std::vector\<close>.  \<open>clear()\<close> leaves the empty list, \<open>push_back(x)\<close>
  appends, \<open>size()\<close> is the length, \<open>resize(n)\<close> keeps the first \<open>n\<close> elements and
  pads with default-constructed ones.  Indexing outside the array is undefined in C++:
  a read or a write at an index that is not below the length is the value \<open>None\<close>.
\<close>

definition resize :: "nat \<Rightarrow> 'a \<Rightarrow> 'a list \<Rightarrow> 'a list" where
  "resize n v xs = take n xs @ replicate (n - length xs) v"

definition at :: "'a list \<Rightarrow> nat \<Rightarrow> 'a option" where
  "at xs i = (if i < length xs then Some (xs ! i) else None)"

definition assign :: "'a list \<Rightarrow> nat \<Rightarrow> 'a \<Rightarrow> 'a list option" where
  "assign xs i v = (if i < length xs then Some (xs[i := v]) else None)"

text \<open>Operations on one row \<open>t[k]\<close> of an array of arrays.\<close>

definition updRow :: "'a list list \<Rightarrow> nat \<Rightarrow> ('a list \<Rightarrow> 'a list option) \<Rightarrow> 'a list list option" where
  "updRow t k f = do { r \<leftarrow> at t k; r' \<leftarrow> f r; assign t k r' }"

definition get2 :: "'a list list \<Rightarrow> nat \<Rightarrow> nat \<Rightarrow> 'a option" where
  "get2 t k l = do { r \<leftarrow> at t k; at r l }"

definition set2 :: "'a list list \<Rightarrow> nat \<Rightarrow> nat \<Rightarrow> 'a \<Rightarrow> 'a list list option" where
  "set2 t k l v = updRow t k (\<lambda>r. assign r l v)"

definition push2 :: "'a list list \<Rightarrow> nat \<Rightarrow> 'a \<Rightarrow> 'a list list option" where
  "push2 t k v = updRow t k (\<lambda>r. Some (r @ [v]))"

definition clear2 :: "'a list list \<Rightarrow> nat \<Rightarrow> 'a list list option" where
  "clear2 t k = updRow t k (\<lambda>r. Some [])"

definition resize2 :: "'a list list \<Rightarrow> nat \<Rightarrow> nat \<Rightarrow> 'a \<Rightarrow> 'a list list option" where
  "resize2 t k n v = updRow t k (\<lambda>r. Some (resize n v r))"

text \<open>
  \<open>for (unsigned int i = 0; i < n; ++i) body\<close> runs the body on \<open>[0..<n]\<close> in order and
  stops at the first undefined step.
\<close>

fun forLoop :: "nat list \<Rightarrow> (nat \<Rightarrow> 's \<Rightarrow> 's option) \<Rightarrow> 's \<Rightarrow> 's option" where
  "forLoop [] body s = Some s"
| "forLoop (i # is) body s = (case body i s of None \<Rightarrow> None | Some s' \<Rightarrow> forLoop is body s')"

section \<open>makeArrayNeighborhood\<close>

text \<open>The five output containers, passed by reference and updated in place.\<close>

record tables =
  neighborOffsets :: "shape list list"
  neighborExists :: "bool list list"
  causalNeighborExists :: "bool list list"
  anticausalNeighborExists :: "bool list list"
  neighborIndexLookup :: "int list list"

text \<open>Default-constructed (empty) containers, as a caller passes them to the first build.\<close>

definition emptyTables :: tables where
  "emptyTables = \<lparr>neighborOffsets = [], neighborExists = [], causalNeighborExists = [],
                  anticausalNeighborExists = [], neighborIndexLookup = []\<rparr>"

text \<open>The body of the loop over the neighbor index \<open>l\<close>, for the code \<open>k\<close>.\<close>

definition innerBody :: "shape \<Rightarrow> nat \<Rightarrow> nat \<Rightarrow> tables \<Rightarrow> tables option" where
  "innerBody strides k l t = do {
     off \<leftarrow> get2 (neighborOffsets t) 0 l;
     let stride = dot off strides;
     t \<leftarrow> (if stride < 0
           then do {
             e \<leftarrow> get2 (neighborExists t) k l;
             c \<leftarrow> set2 (causalNeighborExists t) k l e;
             a \<leftarrow> set2 (anticausalNeighborExists t) k l False;
             Some (t\<lparr>causalNeighborExists := c, anticausalNeighborExists := a\<rparr>) }
           else do {
             c \<leftarrow> set2 (causalNeighborExists t) k l False;
             e \<leftarrow> get2 (neighborExists t) k l;
             a \<leftarrow> set2 (anticausalNeighborExists t) k l e;
             Some (t\<lparr>causalNeighborExists := c, anticausalNeighborExists := a\<rparr>) });
     e \<leftarrow> get2 (neighborExists t) k l;
     t \<leftarrow> (if e
           then do {
             i \<leftarrow> push2 (neighborIndexLookup t) k (int l);
             Some (t\<lparr>neighborIndexLookup := i\<rparr>) }
           else Some t);
     t \<leftarrow> (if k > 0
           then do {
             e \<leftarrow> get2 (neighborExists t) k l;
             if e
             then do {
               off \<leftarrow> get2 (neighborOffsets t) 0 l;
               n \<leftarrow> push2 (neighborOffsets t) k off;
               Some (t\<lparr>neighborOffsets := n\<rparr>) }
             else Some t }
           else Some t);
     Some t }"

text \<open>
  The two places where \<open>makeArrayNeighborhood\<close> chooses the enumerator by
  \<open>neighborhoodType\<close>: the offsets (with \<open>Shape point;\<close> the center) and the
  existence flags of a code.
\<close>

definition neighborhoodOffsets :: "nat \<Rightarrow> NeighborhoodType \<Rightarrow> shape list \<Rightarrow> shape list" where
  "neighborhoodOffsets N neighborhoodType a =
     (if neighborhoodType = DirectNeighborhood
      then MakeDirectArrayNeighborhood_offsets N (N - 1) a
      else (let point = defaultShape N
            in MakeIndirectArrayNeighborhood_offsets (N - 1) a point True))"

definition neighborhoodExists :: "nat \<Rightarrow> NeighborhoodType \<Rightarrow> bool list \<Rightarrow> uint \<Rightarrow> bool list" where
  "neighborhoodExists N neighborhoodType a k =
     (if neighborhoodType = DirectNeighborhood
      then MakeDirectArrayNeighborhood_exists (N - 1) a k
      else MakeIndirectArrayNeighborhood_exists (N - 1) a k True)"

text \<open>The body of the loop over all neighborhood codes \<open>k\<close>.\<close>

definition outerBody :: "nat \<Rightarrow> NeighborhoodType \<Rightarrow> shape \<Rightarrow> uint \<Rightarrow> nat \<Rightarrow> tables \<Rightarrow> tables option" where
  "outerBody N neighborhoodType strides neighborCount k t = do {
     t \<leftarrow> (if k > 0
           then do {
             n \<leftarrow> clear2 (neighborOffsets t) k;
             Some (t\<lparr>neighborOffsets := n\<rparr>) }
           else Some t);
     e \<leftarrow> clear2 (neighborExists t) k;
     e \<leftarrow> updRow e k (\<lambda>a. Some (neighborhoodExists N neighborhoodType a (of_nat k)));
     c \<leftarrow> resize2 (causalNeighborExists t) k (unat neighborCount) False;
     a \<leftarrow> resize2 (anticausalNeighborExists t) k (unat neighborCount) False;
     forLoop [0..<unat neighborCount] (innerBody strides k)
       (t\<lparr>neighborExists := e, causalNeighborExists := c, anticausalNeighborExists := a\<rparr>) }"

text \<open>
  \<open>makeArrayNeighborhood\<close>.  \<open>N = Shape::static_size\<close>; the enumerators are instantiated
  at \<open>N-1\<close>, which has no instance for \<open>N = 0\<close> (the program does not compile).
\<close>

definition makeArrayNeighborhood :: "nat \<Rightarrow> NeighborhoodType \<Rightarrow> tables \<Rightarrow> tables option" where
  "makeArrayNeighborhood N neighborhoodType t =
     (if N = 0 then None
      else do {
        let size = (push_bit (2 * N) 1 :: uint);
        let strides = naturalStrides N;
        let n = resize (unat size) [] (neighborOffsets t);
        n \<leftarrow> clear2 n 0;
        n \<leftarrow> updRow n 0 (\<lambda>a. Some (neighborhoodOffsets N neighborhoodType a));
        row0 \<leftarrow> at n 0;
        let neighborCount = (of_nat (length row0) :: uint);
        let t = t\<lparr>neighborOffsets := n,
                  neighborExists := resize (unat size) [] (neighborExists t),
                  causalNeighborExists := resize (unat size) [] (causalNeighborExists t),
                  anticausalNeighborExists := resize (unat size) [] (anticausalNeighborExists t),
                  neighborIndexLookup := resize (unat size) [] (neighborIndexLookup t)\<rparr>;
        forLoop [0..<unat size] (outerBody N neighborhoodType strides neighborCount) t })"

section \<open>makeArraySubNeighborhood\<close>

text \<open>
  The parameter \<open>neighborExists0\<close> is the source's \<open>neighborExists\<close> (the name is
  taken by the field of the record above).
\<close>

definition subBody :: "shape list \<Rightarrow> bool list list \<Rightarrow> shape \<Rightarrow> nat \<Rightarrow> nat \<Rightarrow> int list list \<Rightarrow> int list list option" where
  "subBody allNeighborOffsets neighborExists0 strides k l neighborIndices = do {
     e \<leftarrow> get2 neighborExists0 k l;
     if e
     then do {
       off \<leftarrow> at allNeighborOffsets l;
       push2 neighborIndices k (dot off strides) }
     else Some neighborIndices }"

definition makeArraySubNeighborhood ::
  "nat \<Rightarrow> shape list \<Rightarrow> bool list list \<Rightarrow> shape \<Rightarrow> int list list \<Rightarrow> int list list option" where
  "makeArraySubNeighborhood N allNeighborOffsets neighborExists0 strides neighborIndices =
     (let size = (push_bit (2 * N) 1 :: uint);
          neighborIndices = resize (unat size) [] neighborIndices;
          neighborCount = (of_nat (length allNeighborOffsets) :: uint)
      in forLoop [0..<unat size]
           (\<lambda>k. forLoop [0..<unat neighborCount] (subBody allNeighborOffsets neighborExists0 strides k))
           neighborIndices)"

section \<open>The Cartesian-product filter of the design notes\<close>

text \<open>
  The reference for the indirect existence flags, in the spec's words: a combination of
  per-dimension branches is kept when no chosen branch is eliminated by the border code.
  The branch \<open>-1\<close> of dimension \<open>d\<close> is eliminated when bit \<open>2d\<close> of the code is set, the
  branch \<open>+1\<close> when bit \<open>2d+1\<close> is set.
\<close>

definition cartesianFilterExists :: "nat \<Rightarrow> uint \<Rightarrow> shape \<Rightarrow> bool" where
  "cartesianFilterExists N k off =
     (\<forall>d \<in> set [0..<N]. \<not> (off ! d = - 1 \<and> bit k (2 * d)) \<and> \<not> (off ! d = 1 \<and> bit k (2 * d + 1)))"

section \<open>The enumerators append to their array\<close>

lemma dOff_app: "MakeDirectArrayNeighborhood_offsets N L a = a @ MakeDirectArrayNeighborhood_offsets N L []"
proof (induction L arbitrary: a)
  case 0 show ?case by (simp add: Let_def)
next
  case (Suc L)
  show ?case
    using Suc.IH[of "a @ [(defaultShape N)[Suc L := - 1]]"] Suc.IH[of "[(defaultShape N)[Suc L := - 1]]"]
    by (simp add: Let_def)
qed

lemma dEx_app: "MakeDirectArrayNeighborhood_exists L a k = a @ MakeDirectArrayNeighborhood_exists L [] k"
proof (induction L arbitrary: a)
  case 0 show ?case by (simp add: Let_def)
next
  case (Suc L)
  show ?case
    using Suc.IH[of "a @ [(k AND push_bit (2 * Suc L) 1) = 0]"] Suc.IH[of "[(k AND push_bit (2 * Suc L) 1) = 0]"]
    by (simp add: Let_def)
qed

lemma iOff_app: "MakeIndirectArrayNeighborhood_offsets L a p c = a @ MakeIndirectArrayNeighborhood_offsets L [] p c"
proof (induction L arbitrary: a p c)
  case 0 show ?case by (simp add: Let_def)
next
  case (Suc L)
  let ?f = "MakeIndirectArrayNeighborhood_offsets L"
  let ?m = "p[Suc L := - 1]" and ?z = "p[Suc L := - 1, Suc L := 0]" and ?o = "p[Suc L := - 1, Suc L := 0, Suc L := 1]"
  have "MakeIndirectArrayNeighborhood_offsets (Suc L) a p c = ?f (?f (?f a ?m False) ?z c) ?o False"
    by (simp add: Let_def)
  also have "\<dots> = a @ ?f [] ?m False @ ?f [] ?z c @ ?f [] ?o False"
    using Suc.IH[of "?f (?f a ?m False) ?z c" ?o False] Suc.IH[of "?f a ?m False" ?z c] Suc.IH[of a ?m False]
    by simp
  also have "\<dots> = a @ ?f (?f (?f [] ?m False) ?z c) ?o False"
    using Suc.IH[of "?f (?f [] ?m False) ?z c" ?o False] Suc.IH[of "?f [] ?m False" ?z c]
    by simp
  also have "\<dots> = a @ MakeIndirectArrayNeighborhood_offsets (Suc L) [] p c"
    by (simp add: Let_def)
  finally show ?case .
qed

lemma iMark_app: "MakeIndirectArrayNeighborhood_markOutside L a = a @ MakeIndirectArrayNeighborhood_markOutside L []"
proof (induction L arbitrary: a)
  case 0 show ?case by (simp add: Let_def)
next
  case (Suc L)
  let ?f = "MakeIndirectArrayNeighborhood_markOutside L"
  have "MakeIndirectArrayNeighborhood_markOutside (Suc L) a = ?f (?f (?f a))"
    by (simp add: Let_def)
  also have "\<dots> = a @ ?f [] @ ?f [] @ ?f []"
    using Suc.IH[of "?f (?f a)"] Suc.IH[of "?f a"] Suc.IH[of a] by simp
  also have "\<dots> = a @ ?f (?f (?f []))"
    using Suc.IH[of "?f (?f [])"] Suc.IH[of "?f []"] by simp
  finally show ?case by (simp add: Let_def)
qed

lemma iMark_replicate: "MakeIndirectArrayNeighborhood_markOutside L [] = replicate (3 ^ Suc L) False"
proof (induction L)
  case 0 show ?case by (simp add: Let_def numeral_3_eq_3)
next
  case (Suc L)
  let ?f = "MakeIndirectArrayNeighborhood_markOutside L"
  have "MakeIndirectArrayNeighborhood_markOutside (Suc L) [] = ?f (?f (?f []))"
    by (simp add: Let_def)
  also have "\<dots> = ?f [] @ ?f [] @ ?f []"
    using iMark_app[of L "?f (?f [])"] iMark_app[of L "?f []"] by simp
  also have "\<dots> = replicate (3 ^ Suc (Suc L)) False"
    by (simp add: Suc.IH flip: replicate_add)
  finally show ?case .
qed

lemma iEx_app: "MakeIndirectArrayNeighborhood_exists L a k c = a @ MakeIndirectArrayNeighborhood_exists L [] k c"
proof (induction L arbitrary: a c)
  case 0 show ?case by (simp add: Let_def)
next
  case (Suc L)
  let ?e = "MakeIndirectArrayNeighborhood_exists L"
  let ?m = "MakeIndirectArrayNeighborhood_markOutside L"
  let ?lo = "(k AND push_bit (2 * Suc L) 1) = 0" and ?hi = "(k AND push_bit (2 * Suc L) 2) = 0"
  define X where "X = (if ?lo then ?e [] k False else ?m [])"
  define Z where "Z = (if ?hi then ?e [] k False else ?m [])"
  have br: "(if ?lo then ?e b k False else ?m b) = b @ X"
       "(if ?hi then ?e b k False else ?m b) = b @ Z" for b
    using Suc.IH[of b False] iMark_app[of L b] by (simp_all add: X_def Z_def)
  have "MakeIndirectArrayNeighborhood_exists (Suc L) b k c = (b @ X) @ ?e [] k c @ Z" for b
  proof -
    have "MakeIndirectArrayNeighborhood_exists (Suc L) b k c = ?e (b @ X) k c @ Z"
      unfolding MakeIndirectArrayNeighborhood_exists.simps Let_def br ..
    then show ?thesis using Suc.IH[of "b @ X" c] by simp
  qed
  from this[of a] this[of "[]"] show ?case by simp
qed

lemma and_1_word: "((k::uint) AND 1 = 0) = (\<not> bit k 0)"
  using and_exp_eq_0_iff_not_bit[of k 0] by simp

lemma and_2_word: "((k::uint) AND 2 = 0) = (\<not> bit k (Suc 0))"
  using and_exp_eq_0_iff_not_bit[of k 1] by simp

lemma and_push_1_word: "((k::uint) AND push_bit n 1 = 0) = (\<not> bit k n)"
  using and_exp_eq_0_iff_not_bit[of k n] by simp

lemma and_push_2_word: "((k::uint) AND push_bit n 2 = 0) = (\<not> bit k (Suc n))"
  using and_exp_eq_0_iff_not_bit[of k "Suc n"] by (simp add: push_bit_eq_mult)

lemma dOff_0: "MakeDirectArrayNeighborhood_offsets N 0 [] = [(defaultShape N)[0 := - 1], (defaultShape N)[0 := 1]]"
  by (simp add: Let_def)

lemma dOff_Suc: "MakeDirectArrayNeighborhood_offsets N (Suc L) [] =
   (defaultShape N)[Suc L := - 1] # MakeDirectArrayNeighborhood_offsets N L [] @ [(defaultShape N)[Suc L := 1]]"
  using dOff_app[of N L "[(defaultShape N)[Suc L := - 1]]"] by (simp add: Let_def)

lemma dEx_0: "MakeDirectArrayNeighborhood_exists 0 [] k = [\<not> bit k 0, \<not> bit k (Suc 0)]"
  by (simp add: Let_def and_1_word and_2_word)

lemma dEx_Suc: "MakeDirectArrayNeighborhood_exists (Suc L) [] k =
   (\<not> bit k (2 * Suc L)) # MakeDirectArrayNeighborhood_exists L [] k @ [\<not> bit k (Suc (2 * Suc L))]"
proof -
  have "MakeDirectArrayNeighborhood_exists (Suc L) [] k =
      MakeDirectArrayNeighborhood_exists L ([] @ [\<not> bit k (2 * Suc L)]) k @ [\<not> bit k (Suc (2 * Suc L))]"
    unfolding MakeDirectArrayNeighborhood_exists.simps Let_def and_push_1_word and_push_2_word ..
  then show ?thesis
    using dEx_app[of L "[\<not> bit k (2 * Suc L)]" k] by simp
qed

lemma iOff_0: "MakeIndirectArrayNeighborhood_offsets 0 [] p c =
   p[0 := - 1] # (if c then [] else [p[0 := 0]]) @ [p[0 := 1]]"
  by (simp add: Let_def)

lemma iOff_Suc: "MakeIndirectArrayNeighborhood_offsets (Suc L) [] p c =
   MakeIndirectArrayNeighborhood_offsets L [] (p[Suc L := - 1]) False @
   MakeIndirectArrayNeighborhood_offsets L [] (p[Suc L := 0]) c @
   MakeIndirectArrayNeighborhood_offsets L [] (p[Suc L := 1]) False"
proof -
  let ?f = "MakeIndirectArrayNeighborhood_offsets L"
  let ?m = "p[Suc L := - 1]" and ?z = "p[Suc L := 0]" and ?o = "p[Suc L := 1]"
  have "MakeIndirectArrayNeighborhood_offsets (Suc L) [] p c = ?f (?f (?f [] ?m False) ?z c) ?o False"
    by (simp add: Let_def)
  then show ?thesis
    using iOff_app[of L "?f (?f [] ?m False) ?z c" ?o False] iOff_app[of L "?f [] ?m False" ?z c]
    by simp
qed

lemma iEx_0: "MakeIndirectArrayNeighborhood_exists 0 [] k c =
   (\<not> bit k 0) # (if c then [] else [True]) @ [\<not> bit k (Suc 0)]"
  by (simp add: Let_def and_1_word and_2_word)

lemma iEx_Suc: "MakeIndirectArrayNeighborhood_exists (Suc L) [] k c =
   (if \<not> bit k (2 * Suc L) then MakeIndirectArrayNeighborhood_exists L [] k False
    else replicate (3 ^ Suc L) False) @
   MakeIndirectArrayNeighborhood_exists L [] k c @
   (if \<not> bit k (Suc (2 * Suc L)) then MakeIndirectArrayNeighborhood_exists L [] k False
    else replicate (3 ^ Suc L) False)"
proof -
  let ?e = "MakeIndirectArrayNeighborhood_exists L"
  let ?m = "MakeIndirectArrayNeighborhood_markOutside L"
  let ?lo = "(k AND push_bit (2 * Suc L) 1) = 0" and ?hi = "(k AND push_bit (2 * Suc L) 2) = 0"
  define X where "X = (if ?lo then ?e [] k False else ?m [])"
  define Z where "Z = (if ?hi then ?e [] k False else ?m [])"
  have br: "(if ?hi then ?e b k False else ?m b) = b @ Z" for b
    using iEx_app[of L b k False] iMark_app[of L b] by (simp add: Z_def)
  have "MakeIndirectArrayNeighborhood_exists (Suc L) [] k c = ?e X k c @ Z"
    unfolding MakeIndirectArrayNeighborhood_exists.simps Let_def br X_def ..
  then have "MakeIndirectArrayNeighborhood_exists (Suc L) [] k c = X @ ?e [] k c @ Z"
    using iEx_app[of L X k c] by simp
  then show ?thesis
    unfolding X_def Z_def iMark_replicate and_push_1_word and_push_2_word by simp
qed

declare MakeDirectArrayNeighborhood_offsets.simps [simp del]
declare MakeDirectArrayNeighborhood_exists.simps [simp del]
declare MakeIndirectArrayNeighborhood_offsets.simps [simp del]
declare MakeIndirectArrayNeighborhood_exists.simps [simp del]
declare MakeIndirectArrayNeighborhood_markOutside.simps [simp del]

lemma length_dOff: "length (MakeDirectArrayNeighborhood_offsets N L []) = 2 * Suc L"
  by (induction L) (simp_all add: dOff_0 dOff_Suc)

lemma length_dEx: "length (MakeDirectArrayNeighborhood_exists L [] k) = 2 * Suc L"
  by (induction L) (simp_all add: dEx_0 dEx_Suc)

lemma length_iOff: "length (MakeIndirectArrayNeighborhood_offsets L [] p c) = 3 ^ Suc L - (if c then 1 else 0)"
proof (induction L arbitrary: p c)
  case 0 show ?case by (simp add: iOff_0)
next
  case (Suc L)
  have "(1::nat) \<le> 3 ^ Suc L" by simp
  then show ?case by (simp add: iOff_Suc Suc.IH)
qed

lemma length_iEx: "length (MakeIndirectArrayNeighborhood_exists L [] k c) = 3 ^ Suc L - (if c then 1 else 0)"
proof (induction L arbitrary: c)
  case 0 show ?case by (simp add: iEx_0)
next
  case (Suc L)
  have "(1::nat) \<le> 3 ^ Suc L" by simp
  then show ?case by (simp add: iEx_Suc Suc.IH)
qed

section \<open>Counts\<close>

text \<open>
  C2: for every \<open>N \<ge> 1\<close> the canonical offset list has \<open>2N\<close> entries for the direct
  and \<open>3^N - 1\<close> entries for the indirect neighborhood, and for every border code the
  existence sequence of the matching enumerator has the length of the offset list (for
  every 32-bit code \<open>k\<close>, the \<open>unsigned int\<close> argument of \<open>exists\<close>).
\<close>

theorem offset_and_existence_counts:
  assumes "1 \<le> N"
  shows "length (MakeDirectArrayNeighborhood_offsets N (N - 1) []) = 2 * N
       \<and> length (MakeIndirectArrayNeighborhood_offsets (N - 1) [] (defaultShape N) True) = 3 ^ N - 1
       \<and> length (MakeDirectArrayNeighborhood_exists (N - 1) [] k)
           = length (MakeDirectArrayNeighborhood_offsets N (N - 1) [])
       \<and> length (MakeIndirectArrayNeighborhood_exists (N - 1) [] k True)
           = length (MakeIndirectArrayNeighborhood_offsets (N - 1) [] (defaultShape N) True)"
proof -
  from assms obtain L where N: "N = Suc L" by (cases N) auto
  show ?thesis unfolding N by (simp add: length_dOff length_dEx length_iOff length_iEx)
qed

theorem offset_and_existence_counts_witness:
  "(1::nat) \<le> 2
   \<and> length (MakeDirectArrayNeighborhood_offsets 2 (2 - 1) []) = 2 * 2
   \<and> length (MakeIndirectArrayNeighborhood_offsets (2 - 1) [] (defaultShape 2) True) = 3 ^ 2 - 1
   \<and> length (MakeDirectArrayNeighborhood_exists (2 - 1) [] 5)
       = length (MakeDirectArrayNeighborhood_offsets 2 (2 - 1) [])
   \<and> length (MakeIndirectArrayNeighborhood_exists (2 - 1) [] 5 True)
       = length (MakeIndirectArrayNeighborhood_offsets (2 - 1) [] (defaultShape 2) True)"
  using offset_and_existence_counts[of 2 5] by simp

section \<open>Point reflection\<close>

lemma neg_defaultShape: "map uminus (defaultShape N) = defaultShape N"
  by (simp add: defaultShape_def)

lemma rev_neg_dOff:
  "rev (map (map uminus) (MakeDirectArrayNeighborhood_offsets N L [])) = MakeDirectArrayNeighborhood_offsets N L []"
  by (induction L) (simp_all add: dOff_0 dOff_Suc map_update neg_defaultShape)

lemma rev_neg_iOff:
  "rev (map (map uminus) (MakeIndirectArrayNeighborhood_offsets L [] p c))
     = MakeIndirectArrayNeighborhood_offsets L [] (map uminus p) c"
  by (induction L arbitrary: p c) (simp_all add: iOff_0 iOff_Suc map_update)

lemma rev_neg_neighborhoodOffsets:
  "rev (map (map uminus) (neighborhoodOffsets N nt [])) = neighborhoodOffsets N nt []"
  by (simp add: neighborhoodOffsets_def rev_neg_dOff rev_neg_iOff neg_defaultShape)

text \<open>
  C4: for both neighborhood shapes and every \<open>N \<ge> 1\<close> the canonical offset list is
  point-reflection symmetric: the entry at index \<open>l\<close> is the negation, coordinate by
  coordinate, of the entry at index \<open>count-1-l\<close>.
\<close>

theorem point_reflection_symmetry:
  assumes "1 \<le> N" and "l < length (neighborhoodOffsets N nt [])"
  shows "neighborhoodOffsets N nt [] ! l
           = map uminus (neighborhoodOffsets N nt [] ! (length (neighborhoodOffsets N nt []) - 1 - l))"
proof -
  let ?offs = "neighborhoodOffsets N nt []"
  have "?offs ! l = rev (map (map uminus) ?offs) ! l"
    by (simp only: rev_neg_neighborhoodOffsets)
  also have "\<dots> = map (map uminus) ?offs ! (length ?offs - Suc l)"
    using assms(2) by (simp add: rev_nth)
  also have "\<dots> = map uminus (?offs ! (length ?offs - 1 - l))"
    using assms(2) by simp
  finally show ?thesis .
qed

theorem point_reflection_symmetry_witness:
  "(1::nat) \<le> 2 \<and> (2::nat) < length (neighborhoodOffsets 2 IndirectNeighborhood [])
   \<and> neighborhoodOffsets 2 IndirectNeighborhood [] ! 2
       = map uminus (neighborhoodOffsets 2 IndirectNeighborhood [] !
           (length (neighborhoodOffsets 2 IndirectNeighborhood []) - 1 - 2))"
proof -
  have len: "(2::nat) < length (neighborhoodOffsets 2 IndirectNeighborhood [])"
    by code_simp
  show ?thesis
    using len point_reflection_symmetry[of 2 2 IndirectNeighborhood] by simp
qed

section \<open>Ordering by the natural strides\<close>

lemma cumprodFrom_replicate:
  "cumprodFrom acc (replicate n 3) = map (\<lambda>d. acc * 3 ^ Suc d) [0..<n]"
proof (induction n arbitrary: acc)
  case 0 show ?case by simp
next
  case (Suc n)
  have "map (\<lambda>d. acc * 3 ^ Suc d) [0..<Suc n] = (acc * 3) # map (\<lambda>d. acc * 3 ^ Suc d) (map Suc [0..<n])"
    by (simp only: map_Suc_upt upt_conv_Cons[of 0 "Suc n"]) simp
  also have "\<dots> = (acc * 3) # map (\<lambda>d. (acc * 3) * 3 ^ Suc d) [0..<n]"
    by (simp add: mult.assoc)
  finally show ?case using Suc.IH[of "acc * 3"] by simp
qed

lemma naturalStrides_eq: "naturalStrides N = map (\<lambda>d. 3 ^ d) [0..<N]"
  by (simp add: naturalStrides_def cumprod_def cumprodFrom_replicate)

lemma length_naturalStrides: "length (naturalStrides N) = N"
  by (simp add: naturalStrides_eq)

lemma nth_naturalStrides: "d < N \<Longrightarrow> naturalStrides N ! d = 3 ^ d"
  by (simp add: naturalStrides_eq)

lemma dot_Cons: "dot (x # xs) (y # ys) = x * y + dot xs ys"
  by (simp add: dot_def)

lemma dot_update:
  "d < length p \<Longrightarrow> d < length s \<Longrightarrow> dot (p[d := v]) s = dot p s + (v - p ! d) * s ! d"
proof (induction p arbitrary: d s)
  case Nil then show ?case by simp
next
  case (Cons x p)
  from Cons.prems obtain y s' where s: "s = y # s'" by (cases s) auto
  show ?case
  proof (cases d)
    case 0 then show ?thesis by (simp add: s dot_Cons algebra_simps)
  next
    case (Suc d')
    with Cons.prems s have "d' < length p" "d' < length s'" by auto
    from Cons.IH[OF this] show ?thesis by (simp add: s Suc dot_Cons)
  qed
qed

lemma dot_defaultShape: "dot (defaultShape N) s = 0"
proof -
  have "dot (replicate n 0) s = 0" for n
    by (induction n arbitrary: s) (case_tac s; simp add: dot_def)+
  then show ?thesis by (simp add: defaultShape_def)
qed

lemma length_defaultShape: "length (defaultShape N) = N"
  by (simp add: defaultShape_def)

lemma nth_defaultShape: "d < N \<Longrightarrow> defaultShape N ! d = 0"
  by (simp add: defaultShape_def)

lemma dot_unit:
  "L < N \<Longrightarrow> dot ((defaultShape N)[L := v]) (naturalStrides N) = v * 3 ^ L"
  using dot_update[of L "defaultShape N" "naturalStrides N" v] dot_defaultShape[of N "naturalStrides N"]
  by (simp add: length_naturalStrides nth_naturalStrides defaultShape_def)

lemma dots_dOff:
  "L < N \<Longrightarrow> map (\<lambda>p. dot p (naturalStrides N)) (MakeDirectArrayNeighborhood_offsets N L [])
     = map (\<lambda>d. - (3 ^ d)) (rev [0..<Suc L]) @ map (\<lambda>d. 3 ^ d) [0..<Suc L]"
proof (induction L)
  case 0 then show ?case by (simp add: dOff_0 dot_unit)
next
  case (Suc L)
  then have IH: "map (\<lambda>p. dot p (naturalStrides N)) (MakeDirectArrayNeighborhood_offsets N L [])
     = map (\<lambda>d. - (3 ^ d)) (rev [0..<Suc L]) @ map (\<lambda>d. 3 ^ d) [0..<Suc L]" by simp
  show ?case using Suc.prems by (simp add: dOff_Suc dot_unit IH)
qed

lemma sorted_pm_powers:
  "sorted (map (\<lambda>d. - ((3::int) ^ d)) (rev [0..<n]) @ map (\<lambda>d. 3 ^ d) [0..<n])"
proof -
  have a: "sorted_wrt (\<lambda>x y. (3::int) ^ x \<le> 3 ^ y) [0..<n]"
    by (rule sorted_wrt_mono_rel[OF _ sorted_wrt_upt[of 0 n]]) (simp add: power_increasing)
  have "sorted (map (\<lambda>d. - ((3::int) ^ d)) (rev [0..<n]))"
    using a by (simp add: sorted_map sorted_wrt_rev)
  moreover have "sorted (map (\<lambda>d. (3::int) ^ d) [0..<n])"
    using a by (simp add: sorted_map)
  moreover have "- ((3::int) ^ x) \<le> 3 ^ y" for x y :: nat
  proof -
    have "- ((3::int) ^ x) \<le> 0" by simp
    also have "\<dots> \<le> 3 ^ y" by simp
    finally show ?thesis .
  qed
  ultimately show ?thesis by (auto simp: sorted_append)
qed

lemma iOff_shape:
  "q \<in> set (MakeIndirectArrayNeighborhood_offsets L [] p c)
     \<Longrightarrow> length q = length p \<and> (\<forall>j>L. q ! j = p ! j)"
proof (induction L arbitrary: p c)
  case 0 then show ?case by (auto simp: iOff_0 split: if_splits)
next
  case (Suc L)
  from Suc.prems consider
      "q \<in> set (MakeIndirectArrayNeighborhood_offsets L [] (p[Suc L := - 1]) False)"
    | "q \<in> set (MakeIndirectArrayNeighborhood_offsets L [] (p[Suc L := 0]) c)"
    | "q \<in> set (MakeIndirectArrayNeighborhood_offsets L [] (p[Suc L := 1]) False)"
    by (auto simp: iOff_Suc)
  then show ?case
    by cases (drule Suc.IH, simp)+
qed

lemma dots_iOff:
  assumes "L < length p" "length s = length p" "\<forall>d\<le>L. p ! d = 0 \<and> s ! d = 3 ^ d"
  shows "sorted (map (\<lambda>q. dot q s) (MakeIndirectArrayNeighborhood_offsets L [] p c))
       \<and> (\<forall>q \<in> set (MakeIndirectArrayNeighborhood_offsets L [] p c). 2 * \<bar>dot q s - dot p s\<bar> < 3 ^ Suc L)"
  using assms
proof (induction L arbitrary: p c)
  case 0
  then have "p ! 0 = 0" "s ! 0 = 1" "0 < length p" "0 < length s" by auto
  then show ?case by (simp add: iOff_0 dot_update)
next
  case (Suc L)
  let ?f = "\<lambda>v c. MakeIndirectArrayNeighborhood_offsets L [] (p[Suc L := v]) c"
  define T :: int where "T = 3 ^ Suc L"
  have len: "Suc L < length p" "Suc L < length s" using Suc.prems by auto
  have pz: "p ! Suc L = 0" and sz: "s ! Suc L = T" using Suc.prems by (auto simp: T_def)
  have base: "dot (p[Suc L := v]) s = dot p s + v * T" for v
    using dot_update[OF len, of v] by (simp add: pz sz)
  have pre: "L < length (p[Suc L := v])" "length s = length (p[Suc L := v])"
       "\<forall>d\<le>L. p[Suc L := v] ! d = 0 \<and> s ! d = 3 ^ d" for v
    using Suc.prems by auto
  have srt: "sorted (map (\<lambda>q. dot q s) (?f v c'))" for v c'
    using Suc.IH[OF pre, of v c'] by simp
  have bnd: "2 * \<bar>dot q s - (dot p s + v * T)\<bar> < T" if "q \<in> set (?f v c')" for q v c'
    using Suc.IH[OF pre, of v c'] that by (simp add: base T_def)
  have m: "2 * dot p s - 3 * T < 2 * dot q s \<and> 2 * dot q s < 2 * dot p s - T"
    if "q \<in> set (?f (- 1) False)" for q using bnd[OF that] by (simp add: abs_if split: if_splits)
  have z: "2 * dot p s - T < 2 * dot q s \<and> 2 * dot q s < 2 * dot p s + T"
    if "q \<in> set (?f 0 c)" for q using bnd[OF that] by (simp add: abs_if split: if_splits)
  have o: "2 * dot p s + T < 2 * dot q s \<and> 2 * dot q s < 2 * dot p s + 3 * T"
    if "q \<in> set (?f 1 False)" for q using bnd[OF that] by (simp add: abs_if split: if_splits)
  have mz: "dot x s \<le> dot y s" if "x \<in> set (?f (- 1) False)" "y \<in> set (?f 0 c)" for x y
    using m[OF that(1)] z[OF that(2)] by linarith
  have mo: "dot x s \<le> dot y s" if "x \<in> set (?f (- 1) False)" "y \<in> set (?f 1 False)" for x y
    using m[OF that(1)] o[OF that(2)] z by linarith
  have zo: "dot x s \<le> dot y s" if "x \<in> set (?f 0 c)" "y \<in> set (?f 1 False)" for x y
    using z[OF that(1)] o[OF that(2)] by linarith
  have Tpos: "0 < T" by (simp add: T_def)
  have "sorted (map (\<lambda>q. dot q s) (?f (- 1) False @ ?f 0 c @ ?f 1 False))"
    unfolding map_append sorted_append set_map set_append
    using srt mz mo zo by blast
  moreover have "2 * \<bar>dot q s - dot p s\<bar> < 3 * T"
    if "q \<in> set (?f (- 1) False @ ?f 0 c @ ?f 1 False)" for q
  proof -
    from that consider "q \<in> set (?f (- 1) False)" | "q \<in> set (?f 0 c)" | "q \<in> set (?f 1 False)"
      by auto
    then show ?thesis
    proof cases
      case 1 from m[OF this] Tpos show ?thesis by arith
    next
      case 2 from z[OF this] Tpos show ?thesis by arith
    next
      case 3 from o[OF this] Tpos show ?thesis by arith
    qed
  qed
  ultimately show ?case by (simp only: iOff_Suc) (simp add: T_def)
qed

text \<open>
  C3: for both neighborhood shapes and every \<open>N \<ge> 1\<close> the dot product of the canonical
  offsets with the natural strides \<open>(1, 3, 9, ..., 3^(N-1))\<close> is non-decreasing along the
  list; in the direct neighborhood the first \<open>count/2\<close> entries have a negative and the
  remaining entries a non-negative dot product.
\<close>

theorem offsets_sorted_by_stride:
  assumes "1 \<le> N"
  shows "naturalStrides N = map (\<lambda>d. 3 ^ d) [0..<N]
       \<and> sorted (map (\<lambda>p. dot p (naturalStrides N)) (neighborhoodOffsets N nt []))
       \<and> (\<forall>l < length (neighborhoodOffsets N DirectNeighborhood []).
            (l < length (neighborhoodOffsets N DirectNeighborhood []) div 2
               \<longrightarrow> dot (neighborhoodOffsets N DirectNeighborhood [] ! l) (naturalStrides N) < 0)
          \<and> (length (neighborhoodOffsets N DirectNeighborhood []) div 2 \<le> l
               \<longrightarrow> 0 \<le> dot (neighborhoodOffsets N DirectNeighborhood [] ! l) (naturalStrides N)))"
proof -
  from assms obtain L where N: "N = Suc L" by (cases N) auto
  let ?S = "naturalStrides N"
  let ?D = "MakeDirectArrayNeighborhood_offsets N L []"
  let ?A = "map (\<lambda>d. - ((3::int) ^ d)) (rev [0..<Suc L])"
  let ?B = "map (\<lambda>d. (3::int) ^ d) [0..<Suc L]"
  have D: "map (\<lambda>p. dot p ?S) ?D = ?A @ ?B"
    by (rule dots_dOff) (simp add: N)
  have sortedD: "sorted (map (\<lambda>p. dot p ?S) ?D)"
    unfolding D by (rule sorted_pm_powers)
  have sortedI: "sorted (map (\<lambda>p. dot p ?S) (MakeIndirectArrayNeighborhood_offsets L [] (defaultShape N) True))"
  proof -
    have "L < length (defaultShape N)" "length ?S = length (defaultShape N)"
         "\<forall>d\<le>L. defaultShape N ! d = 0 \<and> ?S ! d = 3 ^ d"
      using N by (auto simp: length_defaultShape nth_defaultShape length_naturalStrides nth_naturalStrides)
    from dots_iOff[OF this] show ?thesis by simp
  qed
  have half: "(l < length ?D div 2 \<longrightarrow> dot (?D ! l) ?S < 0) \<and> (length ?D div 2 \<le> l \<longrightarrow> 0 \<le> dot (?D ! l) ?S)"
    if l: "l < length ?D" for l
  proof -
    define A B where "A = ?A" and "B = ?B"
    have len: "length ?D = 2 * Suc L" by (rule length_dOff)
    have lenA: "length A = Suc L" and lenB: "length B = Suc L" by (simp_all add: A_def B_def)
    have eq: "dot (?D ! l) ?S = (A @ B) ! l"
      using l unfolding A_def B_def by (simp only: D[symmetric] nth_map)
    have neg: "x < 0" if "x \<in> set A" for x using that by (auto simp: A_def)
    have pos: "0 \<le> x" if "x \<in> set B" for x using that by (auto simp: B_def)
    show ?thesis
    proof (cases "l < Suc L")
      case True
      then have "(A @ B) ! l = A ! l" "A ! l \<in> set A" by (simp_all add: nth_append lenA)
      with neg True show ?thesis by (simp add: eq len)
    next
      case False
      with l len have "l - Suc L < length B" by (simp add: lenB)
      then have "B ! (l - Suc L) \<in> set B" by (rule nth_mem)
      moreover have "(A @ B) ! l = B ! (l - Suc L)" using False by (simp add: nth_append lenA)
      ultimately have "0 \<le> (A @ B) ! l" using pos by simp
      with False show ?thesis by (simp add: eq len)
    qed
  qed
  show ?thesis
    using sortedD sortedI half
    by (cases nt) (simp_all add: naturalStrides_eq neighborhoodOffsets_def N)
qed

theorem offsets_sorted_by_stride_witness:
  "(1::nat) \<le> 2
   \<and> naturalStrides 2 = [1, 3]
   \<and> map (\<lambda>p. dot p (naturalStrides 2)) (neighborhoodOffsets 2 IndirectNeighborhood [])
       = [- 4, - 3, - 2, - 1, 1, 2, 3, 4]
   \<and> sorted (map (\<lambda>p. dot p (naturalStrides 2)) (neighborhoodOffsets 2 IndirectNeighborhood []))
   \<and> map (\<lambda>p. dot p (naturalStrides 2)) (neighborhoodOffsets 2 DirectNeighborhood [])
       = [- 3, - 1, 1, 3]"
proof -
  have "naturalStrides 2 = [1, 3]" by code_simp
  moreover have "map (\<lambda>p. dot p (naturalStrides 2)) (neighborhoodOffsets 2 IndirectNeighborhood [])
       = [- 4, - 3, - 2, - 1, 1, 2, 3, 4]" by code_simp
  moreover have "map (\<lambda>p. dot p (naturalStrides 2)) (neighborhoodOffsets 2 DirectNeighborhood [])
       = [- 3, - 1, 1, 3]" by code_simp
  ultimately show ?thesis
    using offsets_sorted_by_stride[of 2 IndirectNeighborhood] by simp
qed

section \<open>The recursive masking against the Cartesian-product filter\<close>

lemma cartesianFilterExists_Suc:
  "cartesianFilterExists (Suc n) k off =
     (cartesianFilterExists n k off
      \<and> \<not> (off ! n = - 1 \<and> bit k (2 * n)) \<and> \<not> (off ! n = 1 \<and> bit k (2 * n + 1)))"
  by (auto simp: cartesianFilterExists_def less_Suc_eq)

lemma iEx_refines:
  "L < length p \<Longrightarrow>
   MakeIndirectArrayNeighborhood_exists L [] k c
     = map (cartesianFilterExists (Suc L) k) (MakeIndirectArrayNeighborhood_offsets L [] p c)"
proof (induction L arbitrary: p c)
  case 0
  then show ?case
    by (simp add: iEx_0 iOff_0 cartesianFilterExists_def)
next
  case (Suc L)
  let ?f = "\<lambda>v c. MakeIndirectArrayNeighborhood_offsets L [] (p[Suc L := v]) c"
  have IH: "MakeIndirectArrayNeighborhood_exists L [] k c'
     = map (cartesianFilterExists (Suc L) k) (?f v c')" for v c'
    using Suc.IH[of "p[Suc L := v]" c'] Suc.prems by simp
  have coord: "q ! Suc L = v" if "q \<in> set (?f v c')" for q v c'
    using iOff_shape[OF that] Suc.prems by simp
  have blk: "map (cartesianFilterExists (Suc (Suc L)) k) (?f v c')
      = (if (v = - 1 \<and> bit k (2 * Suc L)) \<or> (v = 1 \<and> bit k (2 * Suc L + 1))
         then replicate (length (?f v c')) False
         else MakeIndirectArrayNeighborhood_exists L [] k c')" for v c'
  proof (cases "(v = - 1 \<and> bit k (2 * Suc L)) \<or> (v = 1 \<and> bit k (2 * Suc L + 1))")
    case True
    then have "map (cartesianFilterExists (Suc (Suc L)) k) (?f v c') = map (\<lambda>_. False) (?f v c')"
      by (intro map_cong refl) (auto simp: cartesianFilterExists_Suc[of "Suc L"] coord)
    with True show ?thesis by (simp only: if_True map_replicate_const)
  next
    case False
    then have "map (cartesianFilterExists (Suc (Suc L)) k) (?f v c')
        = map (cartesianFilterExists (Suc L) k) (?f v c')"
      by (intro map_cong refl) (auto simp: cartesianFilterExists_Suc[of "Suc L"] coord)
    also have "\<dots> = MakeIndirectArrayNeighborhood_exists L [] k c'"
      by (rule IH[symmetric])
    finally show ?thesis using False by (simp only: if_False)
  qed
  show ?case
    by (simp only: iEx_Suc iOff_Suc map_append blk length_iOff) simp
qed

text \<open>
  C1: in the indirect neighborhood, for every \<open>N \<ge> 1\<close> and every border code \<open>k\<close>, the
  existence flag that the recursive masking (\<open>exists\<close> with \<open>markOutside\<close>) computes for the
  neighbor at canonical index \<open>l\<close> is the value of the Cartesian-product filter at
  \<open>offset[l]\<close>: true iff in no dimension \<open>d\<close> the offset is \<open>-1\<close> while bit \<open>2d\<close> of \<open>k\<close> is
  set, or \<open>+1\<close> while bit \<open>2d+1\<close> is set.  The code is the \<open>unsigned int\<close> argument of
  \<open>exists\<close>, so the statement is for every 32-bit code.
\<close>

theorem indirect_exists_refines_cartesian_filter:
  assumes "1 \<le> N"
  shows "length (MakeIndirectArrayNeighborhood_exists (N - 1) [] k True)
           = length (MakeIndirectArrayNeighborhood_offsets (N - 1) [] (defaultShape N) True)
       \<and> (\<forall>l < length (MakeIndirectArrayNeighborhood_offsets (N - 1) [] (defaultShape N) True).
             MakeIndirectArrayNeighborhood_exists (N - 1) [] k True ! l
               = cartesianFilterExists N k
                   (MakeIndirectArrayNeighborhood_offsets (N - 1) [] (defaultShape N) True ! l))"
proof -
  from assms obtain L where N: "N = Suc L" by (cases N) auto
  have "L < length (defaultShape N)" by (simp add: N length_defaultShape)
  from iEx_refines[OF this, of k True] show ?thesis
    by (simp add: N)
qed

theorem indirect_exists_refines_cartesian_filter_witness:
  "(1::nat) \<le> 2
   \<and> MakeIndirectArrayNeighborhood_offsets (2 - 1) [] (defaultShape 2) True
       = [[- 1, - 1], [0, - 1], [1, - 1], [- 1, 0], [1, 0], [- 1, 1], [0, 1], [1, 1]]
   \<and> MakeIndirectArrayNeighborhood_exists (2 - 1) [] 1 True
       = [False, True, True, False, True, False, True, True]
   \<and> MakeIndirectArrayNeighborhood_exists (2 - 1) [] 1 True ! 3 = cartesianFilterExists 2 1 [- 1, 0]
   \<and> MakeIndirectArrayNeighborhood_exists (2 - 1) [] 1 True ! 4 = cartesianFilterExists 2 1 [1, 0]"
proof -
  have offs: "MakeIndirectArrayNeighborhood_offsets (Suc 0) [] (defaultShape 2) True
       = [[- 1, - 1], [0, - 1], [1, - 1], [- 1, 0], [1, 0], [- 1, 1], [0, 1], [1, 1]]"
    by code_simp
  have ex: "MakeIndirectArrayNeighborhood_exists (Suc 0) [] 1 True
       = [False, True, True, False, True, False, True, True]"
    by code_simp
  have all: "\<forall>l < length (MakeIndirectArrayNeighborhood_offsets (Suc 0) [] (defaultShape 2) True).
             MakeIndirectArrayNeighborhood_exists (Suc 0) [] 1 True ! l
               = cartesianFilterExists 2 1
                   (MakeIndirectArrayNeighborhood_offsets (Suc 0) [] (defaultShape 2) True ! l)"
    using indirect_exists_refines_cartesian_filter[of 2 1] by simp
  have "MakeIndirectArrayNeighborhood_exists (Suc 0) [] 1 True ! 3 = cartesianFilterExists 2 1 [- 1, 0]"
       "MakeIndirectArrayNeighborhood_exists (Suc 0) [] 1 True ! 4 = cartesianFilterExists 2 1 [1, 0]"
    using all[THEN spec, of 3] all[THEN spec, of 4] unfolding offs by simp_all
  then show ?thesis using offs ex by simp
qed

section \<open>Existence is antitone in the border code\<close>

lemma dEx_antitone:
  "\<forall>n. bit k1 n \<longrightarrow> bit k2 n \<Longrightarrow>
   list_all2 (\<lambda>e1 e2. e2 \<longrightarrow> e1) (MakeDirectArrayNeighborhood_exists L [] k1)
                                (MakeDirectArrayNeighborhood_exists L [] k2)"
  by (induction L) (auto simp: dEx_0 dEx_Suc intro!: list_all2_appendI)

lemma all_False_dominated:
  "length xs = n \<Longrightarrow> list_all2 (\<lambda>e1 e2. e2 \<longrightarrow> e1) xs (replicate n False)"
  by (simp add: list_all2_conv_all_nth)

lemma iEx_antitone:
  "\<forall>n. bit k1 n \<longrightarrow> bit k2 n \<Longrightarrow>
   list_all2 (\<lambda>e1 e2. e2 \<longrightarrow> e1) (MakeIndirectArrayNeighborhood_exists L [] k1 c)
                                (MakeIndirectArrayNeighborhood_exists L [] k2 c)"
proof (induction L arbitrary: c)
  case 0 then show ?case by (auto simp: iEx_0)
next
  case (Suc L)
  let ?R = "\<lambda>e1 e2 :: bool. e2 \<longrightarrow> e1"
  have blk: "list_all2 ?R
      (if \<not> bit k1 m then MakeIndirectArrayNeighborhood_exists L [] k1 False else replicate (3 ^ Suc L) False)
      (if \<not> bit k2 m then MakeIndirectArrayNeighborhood_exists L [] k2 False else replicate (3 ^ Suc L) False)"
    for m
  proof (cases "bit k2 m")
    case True
    have "length (if \<not> bit k1 m then MakeIndirectArrayNeighborhood_exists L [] k1 False
                  else replicate (3 ^ Suc L) False) = 3 ^ Suc L"
      by (simp add: length_iEx)
    from all_False_dominated[OF this] True show ?thesis by simp
  next
    case False
    with Suc.prems have "\<not> bit k1 m" by blast
    with False Suc.IH[OF Suc.prems, of False] show ?thesis by simp
  qed
  show ?case
    unfolding iEx_Suc
    by (intro list_all2_appendI blk Suc.IH[OF Suc.prems])
qed

lemma bits_subset:
  fixes k1 k2 :: uint
  assumes "k1 AND k2 = k1"
  shows "\<forall>n. bit k1 n \<longrightarrow> bit k2 n"
proof (intro allI impI)
  fix n assume "bit k1 n"
  then have "bit (k1 AND k2) n" by (simp only: assms)
  then show "bit k2 n" by (simp add: bit_and_iff)
qed

text \<open>
  C10: existence is antitone in the border code, for both neighborhood shapes: when
  every bit set in \<open>k1\<close> is also set in \<open>k2\<close> (\<open>k1 AND k2 = k1\<close>), a neighbor that exists
  under \<open>k2\<close> exists under \<open>k1\<close>; in particular the flags of code 0 dominate those of
  every code.
\<close>

theorem existence_antitone_in_border_code:
  assumes "1 \<le> N" and "k1 AND k2 = k1"
  shows "length (neighborhoodExists N nt [] k1) = length (neighborhoodExists N nt [] k2)
       \<and> (\<forall>l < length (neighborhoodExists N nt [] k2).
             neighborhoodExists N nt [] k2 ! l \<longrightarrow> neighborhoodExists N nt [] k1 ! l)
       \<and> (\<forall>l < length (neighborhoodExists N nt [] k2).
             neighborhoodExists N nt [] k2 ! l \<longrightarrow> neighborhoodExists N nt [] 0 ! l)"
proof -
  have dom: "list_all2 (\<lambda>e1 e2. e2 \<longrightarrow> e1) (neighborhoodExists N nt [] k) (neighborhoodExists N nt [] k')"
    if "\<forall>n. bit k n \<longrightarrow> bit k' n" for k k'
    using dEx_antitone[OF that] iEx_antitone[OF that] by (simp add: neighborhoodExists_def)
  have idx: "length (neighborhoodExists N nt [] k) = length (neighborhoodExists N nt [] k')
      \<and> (\<forall>l < length (neighborhoodExists N nt [] k').
             neighborhoodExists N nt [] k' ! l \<longrightarrow> neighborhoodExists N nt [] k ! l)"
    if "\<forall>n. bit k n \<longrightarrow> bit k' n" for k k'
    using dom[OF that] by (simp add: list_all2_conv_all_nth)
  have zero: "\<forall>n. bit (0::uint) n \<longrightarrow> bit k2 n" by simp
  from idx[OF bits_subset[OF assms(2)]] idx[OF zero] show ?thesis by simp
qed

theorem existence_antitone_in_border_code_witness:
  "(1::nat) \<le> 2 \<and> (1::uint) AND 9 = 1
   \<and> neighborhoodExists 2 IndirectNeighborhood [] 9 = [False, True, True, False, True, False, False, False]
   \<and> neighborhoodExists 2 IndirectNeighborhood [] 1 = [False, True, True, False, True, False, True, True]
   \<and> neighborhoodExists 2 IndirectNeighborhood [] 0 = [True, True, True, True, True, True, True, True]
   \<and> length (neighborhoodExists 2 IndirectNeighborhood [] 1) = length (neighborhoodExists 2 IndirectNeighborhood [] 9)"
proof -
  have sub: "(1::uint) AND 9 = 1" by simp
  have "neighborhoodExists 2 IndirectNeighborhood [] 9 = [False, True, True, False, True, False, False, False]"
       "neighborhoodExists 2 IndirectNeighborhood [] 1 = [False, True, True, False, True, False, True, True]"
       "neighborhoodExists 2 IndirectNeighborhood [] 0 = [True, True, True, True, True, True, True, True]"
    by code_simp+
  then show ?thesis
    using sub existence_antitone_in_border_code[of 2 1 9 IndirectNeighborhood] by simp
qed

section \<open>The border classifier\<close>

lemma bit_push_1_word: "bit (push_bit m 1 :: uint) n \<longleftrightarrow> n = m \<and> m < 32"
  by (auto simp: bit_simps)

lemma bit_push_2_word: "bit (push_bit m 2 :: uint) n \<longleftrightarrow> n = Suc m \<and> Suc m < 32"
proof -
  have "push_bit m (2 :: uint) = push_bit (Suc m) 1" by (simp add: push_bit_eq_mult)
  then show ?thesis by (simp only: bit_push_1_word)
qed

lemma bit_2_word: "bit (2 :: uint) n \<longleftrightarrow> n = Suc 0"
  using bit_push_2_word[of 0 n] by simp

lemma bit_BorderTypeImpl:
  "D < 16 \<Longrightarrow>
   bit (BorderTypeImpl D point shp) n \<longleftrightarrow>
     (\<exists>d\<le>D. (n = 2 * d \<and> point ! d = 0) \<or> (n = Suc (2 * d) \<and> point ! d = shp ! d - 1))"
proof (induction D)
  case 0
  have "bit (BorderTypeImpl 0 point shp) n \<longleftrightarrow>
      (n = 2 * 0 \<and> point ! 0 = 0) \<or> (n = Suc (2 * 0) \<and> point ! 0 = shp ! 0 - 1)"
    unfolding BorderTypeImpl.simps Let_def
    by (simp only: bit_or_iff bit_push_1_word bit_push_2_word if_distrib[of "\<lambda>w. bit w n"] split: if_split) simp
  then show ?case by simp
next
  case (Suc D)
  then have IH: "bit (BorderTypeImpl D point shp) n \<longleftrightarrow>
     (\<exists>d\<le>D. (n = 2 * d \<and> point ! d = 0) \<or> (n = Suc (2 * d) \<and> point ! d = shp ! d - 1))"
    by simp
  have lt: "2 * Suc D < 32" "Suc (2 * Suc D) < 32" using Suc.prems by simp_all
  have "bit (BorderTypeImpl (Suc D) point shp) n \<longleftrightarrow>
      bit (BorderTypeImpl D point shp) n
      \<or> (n = 2 * Suc D \<and> point ! Suc D = 0) \<or> (n = Suc (2 * Suc D) \<and> point ! Suc D = shp ! Suc D - 1)"
    unfolding BorderTypeImpl.simps Let_def
    using lt by (simp only: bit_or_iff bit_push_1_word bit_push_2_word if_distrib[of "\<lambda>w. bit w n"] split: if_split) blast
  then show ?case
    unfolding IH by (auto simp: le_Suc_eq)
qed

text \<open>
  C7: for a coordinate and a region shape of length \<open>N\<close>, every extent at least 1 and
  \<open>0 \<le> coordinate[d] \<le> shape[d]-1\<close> in every dimension, the classifier returns the
  code whose bit \<open>2d\<close> is set iff \<open>coordinate[d] = 0\<close> and whose bit \<open>2d+1\<close> is set iff
  \<open>coordinate[d] = shape[d]-1\<close>, for each \<open>d\<close> from 0 to \<open>N-1\<close> (and no other bit is
  set); both bits of a pair are set only when \<open>shape[d] = 1\<close>, and the code is 0
  exactly for the strictly interior points.  The code is an \<open>unsigned int\<close>: its 32
  bits hold the \<open>2N\<close> flags for \<open>N \<le> 16\<close>.
\<close>

theorem border_classifier_bits:
  assumes "1 \<le> N" and "N \<le> 16" and "length point = N" and "length shp = N"
    and "\<forall>d<N. 1 \<le> shp ! d \<and> 0 \<le> point ! d \<and> point ! d \<le> shp ! d - 1"
  shows "(\<forall>d<N. (bit (BorderTypeImpl (N - 1) point shp) (2 * d) \<longleftrightarrow> point ! d = 0)
              \<and> (bit (BorderTypeImpl (N - 1) point shp) (2 * d + 1) \<longleftrightarrow> point ! d = shp ! d - 1)
              \<and> (bit (BorderTypeImpl (N - 1) point shp) (2 * d)
                   \<and> bit (BorderTypeImpl (N - 1) point shp) (2 * d + 1) \<longrightarrow> shp ! d = 1))
       \<and> (\<forall>n\<ge>2 * N. \<not> bit (BorderTypeImpl (N - 1) point shp) n)
       \<and> (BorderTypeImpl (N - 1) point shp = 0
            \<longleftrightarrow> (\<forall>d<N. 0 < point ! d \<and> point ! d < shp ! d - 1))"
proof -
  from assms(1) obtain D where N: "N = Suc D" by (cases N) auto
  let ?c = "BorderTypeImpl D point shp"
  have D: "D < 16" using assms(2) N by simp
  note b = bit_BorderTypeImpl[OF D, of point shp]
  have parity: "2 * i \<noteq> Suc (2 * j)" for i j :: nat by presburger
  have lo: "bit ?c (2 * d) \<longleftrightarrow> point ! d = 0" if "d < N" for d
  proof -
    have "(\<exists>d'\<le>D. (2 * d = 2 * d' \<and> point ! d' = 0) \<or> (2 * d = Suc (2 * d') \<and> point ! d' = shp ! d' - 1))
          \<longleftrightarrow> point ! d = 0"
      using that N by (auto simp: parity)
    then show ?thesis by (simp only: b)
  qed
  have hi: "bit ?c (2 * d + 1) \<longleftrightarrow> point ! d = shp ! d - 1" if "d < N" for d
  proof -
    have "(\<exists>d'\<le>D. (2 * d + 1 = 2 * d' \<and> point ! d' = 0) \<or> (2 * d + 1 = Suc (2 * d') \<and> point ! d' = shp ! d' - 1))
          \<longleftrightarrow> point ! d = shp ! d - 1"
      using that N parity[of _ d] by (auto simp: eq_commute[of "Suc (2 * d)"])
    then show ?thesis by (simp only: b)
  qed
  have above: "\<not> bit ?c n" if "2 * N \<le> n" for n
    using that N by (auto simp: b)
  have zero: "?c = 0 \<longleftrightarrow> (\<forall>d<N. 0 < point ! d \<and> point ! d < shp ! d - 1)"
  proof
    assume "?c = 0"
    then have nb: "\<not> bit ?c n" for n by simp
    show "\<forall>d<N. 0 < point ! d \<and> point ! d < shp ! d - 1"
    proof (intro allI impI)
      fix d assume d: "d < N"
      from nb[of "2 * d"] nb[of "2 * d + 1"] lo[OF d] hi[OF d]
      have "point ! d \<noteq> 0" "point ! d \<noteq> shp ! d - 1" by simp_all
      with assms(5) d show "0 < point ! d \<and> point ! d < shp ! d - 1" by fastforce
    qed
  next
    assume int: "\<forall>d<N. 0 < point ! d \<and> point ! d < shp ! d - 1"
    have "\<not> bit ?c n" for n
      unfolding b using int N by (auto simp: less_Suc_eq_le) 
    then show "?c = 0" by (simp add: bit_eq_iff)
  qed
  have both: "shp ! d = 1" if "d < N" "bit ?c (2 * d)" "bit ?c (2 * d + 1)" for d
    using that lo[OF that(1)] hi[OF that(1)] by simp
  show ?thesis
    using lo hi above zero both by (simp add: N)
qed

theorem border_classifier_bits_witness:
  "(1::nat) \<le> 2 \<and> (2::nat) \<le> 16 \<and> length [0, 4 :: int] = 2 \<and> length [1, 5 :: int] = 2
   \<and> 1 \<le> [1, 5 :: int] ! 0 \<and> 0 \<le> [0, 4 :: int] ! 0 \<and> [0, 4 :: int] ! 0 \<le> [1, 5] ! 0 - 1
   \<and> 1 \<le> [1, 5 :: int] ! 1 \<and> 0 \<le> [0, 4 :: int] ! 1 \<and> [0, 4 :: int] ! 1 \<le> [1, 5] ! 1 - 1
   \<and> BorderTypeImpl (2 - 1) [0, 4] [1, 5] = 11
   \<and> bit (BorderTypeImpl (2 - 1) [0, 4] [1, 5]) (2 * 0)
   \<and> bit (BorderTypeImpl (2 - 1) [0, 4] [1, 5]) (2 * 0 + 1)
   \<and> \<not> bit (BorderTypeImpl (2 - 1) [0, 4] [1, 5]) (2 * 1)
   \<and> bit (BorderTypeImpl (2 - 1) [0, 4] [1, 5]) (2 * 1 + 1)
   \<and> BorderTypeImpl (2 - 1) [0, 4] [1, 5] \<noteq> 0"
proof -
  have rng: "\<forall>d<2. 1 \<le> [1, 5 :: int] ! d \<and> 0 \<le> [0, 4 :: int] ! d \<and> [0, 4 :: int] ! d \<le> [1, 5] ! d - 1"
    by (simp add: less_Suc_eq numeral_2_eq_2)
  have val: "BorderTypeImpl (Suc 0) [0, 4] [1, 5] = 11"
    by code_simp
  have bits: "\<forall>d<2. (bit (BorderTypeImpl (2 - 1) [0, 4] [1, 5]) (2 * d) \<longleftrightarrow> [0, 4 :: int] ! d = 0)
              \<and> (bit (BorderTypeImpl (2 - 1) [0, 4] [1, 5]) (2 * d + 1) \<longleftrightarrow> [0, 4 :: int] ! d = [1, 5] ! d - 1)"
    using border_classifier_bits[of 2 "[0, 4]" "[1, 5]"] rng by simp
  have "bit (BorderTypeImpl (2 - 1) [0, 4] [1, 5]) (2 * 0)"
       "bit (BorderTypeImpl (2 - 1) [0, 4] [1, 5]) (2 * 0 + 1)"
       "\<not> bit (BorderTypeImpl (2 - 1) [0, 4] [1, 5]) (2 * 1)"
       "bit (BorderTypeImpl (2 - 1) [0, 4] [1, 5]) (2 * 1 + 1)"
    using bits[THEN spec, of 0] bits[THEN spec, of 1] by simp_all
  then show ?thesis using val by simp
qed
section \<open>The tables built by makeArrayNeighborhood\<close>

lemma at_Some: "i < length xs \<Longrightarrow> at xs i = Some (xs ! i)"
  by (simp add: at_def)

lemma updRow_Some:
  "k < length t \<Longrightarrow> f (t ! k) = Some r \<Longrightarrow> updRow t k f = Some (t[k := r])"
  by (simp add: updRow_def at_def assign_def)

lemma get2_Some: "k < length t \<Longrightarrow> l < length (t ! k) \<Longrightarrow> get2 t k l = Some (t ! k ! l)"
  by (simp add: get2_def at_def)

lemma set2_Some:
  "k < length t \<Longrightarrow> l < length (t ! k) \<Longrightarrow> set2 t k l v = Some (t[k := (t ! k)[l := v]])"
  by (simp add: set2_def updRow_def at_def assign_def)

lemma push2_Some: "k < length t \<Longrightarrow> push2 t k v = Some (t[k := t ! k @ [v]])"
  by (simp add: push2_def updRow_def at_def assign_def)

lemma clear2_Some: "k < length t \<Longrightarrow> clear2 t k = Some (t[k := []])"
  by (simp add: clear2_def updRow_def at_def assign_def)

lemma resize2_Some: "k < length t \<Longrightarrow> resize2 t k n v = Some (t[k := resize n v (t ! k)])"
  by (simp add: resize2_def updRow_def at_def assign_def)

lemma length_resize: "length (resize n v xs) = n"
  by (simp add: resize_def)

lemma forLoop_append:
  "forLoop (xs @ ys) body s = (case forLoop xs body s of None \<Rightarrow> None | Some s' \<Rightarrow> forLoop ys body s')"
  by (induction xs arbitrary: s) (simp_all split: option.splits)

lemma forLoop_Suc:
  "forLoop [0..<Suc j] body s = (case forLoop [0..<j] body s of None \<Rightarrow> None | Some s' \<Rightarrow> body j s')"
  by (simp add: forLoop_append split: option.splits)

lemma innerBody_step:
  assumes "k < length (neighborOffsets t)" "k < length (neighborExists t)"
    and "k < length (causalNeighborExists t)" "k < length (anticausalNeighborExists t)"
    and "k < length (neighborIndexLookup t)"
    and "l < length (neighborOffsets t ! 0)" "l < length (neighborExists t ! k)"
    and "l < length (causalNeighborExists t ! k)" "l < length (anticausalNeighborExists t ! k)"
  shows "innerBody strides k l t = Some (t\<lparr>
      neighborOffsets :=
        (if 0 < k \<and> neighborExists t ! k ! l
         then (neighborOffsets t)[k := neighborOffsets t ! k @ [neighborOffsets t ! 0 ! l]]
         else neighborOffsets t),
      causalNeighborExists :=
        (causalNeighborExists t)[k := (causalNeighborExists t ! k)
           [l := (neighborExists t ! k ! l \<and> dot (neighborOffsets t ! 0 ! l) strides < 0)]],
      anticausalNeighborExists :=
        (anticausalNeighborExists t)[k := (anticausalNeighborExists t ! k)
           [l := (neighborExists t ! k ! l \<and> \<not> dot (neighborOffsets t ! 0 ! l) strides < 0)]],
      neighborIndexLookup :=
        (if neighborExists t ! k ! l
         then (neighborIndexLookup t)[k := neighborIndexLookup t ! k @ [int l]]
         else neighborIndexLookup t)\<rparr>)"
proof -
  have z: "0 < length (neighborOffsets t)" using assms(1) by (rule le_less_trans[OF le0])
  have off: "get2 (neighborOffsets t) 0 l = Some (neighborOffsets t ! 0 ! l)"
    using z assms(6) by (rule get2_Some)
  have e: "get2 (neighborExists t) k l = Some (neighborExists t ! k ! l)"
    using assms(2,7) by (rule get2_Some)
  have c: "set2 (causalNeighborExists t) k l v
      = Some ((causalNeighborExists t)[k := (causalNeighborExists t ! k)[l := v]])" for v
    using assms(3,8) by (rule set2_Some)
  have a: "set2 (anticausalNeighborExists t) k l v
      = Some ((anticausalNeighborExists t)[k := (anticausalNeighborExists t ! k)[l := v]])" for v
    using assms(4,9) by (rule set2_Some)
  have i: "push2 (neighborIndexLookup t) k v = Some ((neighborIndexLookup t)[k := neighborIndexLookup t ! k @ [v]])" for v
    using assms(5) by (rule push2_Some)
  have n: "push2 (neighborOffsets t) k v = Some ((neighborOffsets t)[k := neighborOffsets t ! k @ [v]])" for v
    using assms(1) by (rule push2_Some)
  show ?thesis
    by (simp add: innerBody_def off e c a i n Let_def)
qed

lemma upd_prefix:
  "j < length X \<Longrightarrow> (map F [0..<j] @ drop j X)[j := F j] = map F [0..<Suc j] @ drop (Suc j) X"
proof -
  assume j: "j < length X"
  then have "drop j X = X ! j # drop (Suc j) X" by (simp add: Cons_nth_drop_Suc)
  then show ?thesis by (simp add: list_update_append)
qed

lemma innerLoop_result:
  assumes "k < length (neighborOffsets t)" "k < length (neighborExists t)"
    and "k < length (causalNeighborExists t)" "k < length (anticausalNeighborExists t)"
    and "k < length (neighborIndexLookup t)"
    and "j \<le> length (neighborOffsets t ! 0)" "j \<le> length (neighborExists t ! k)"
    and "j \<le> length (causalNeighborExists t ! k)" "j \<le> length (anticausalNeighborExists t ! k)"
  shows "forLoop [0..<j] (innerBody strides k) t = Some (t\<lparr>
      neighborOffsets :=
        (if 0 < k
         then (neighborOffsets t)[k := neighborOffsets t ! k
                @ map (\<lambda>l. neighborOffsets t ! 0 ! l) (filter (\<lambda>l. neighborExists t ! k ! l) [0..<j])]
         else neighborOffsets t),
      causalNeighborExists :=
        (causalNeighborExists t)[k :=
           map (\<lambda>l. neighborExists t ! k ! l \<and> dot (neighborOffsets t ! 0 ! l) strides < 0) [0..<j]
           @ drop j (causalNeighborExists t ! k)],
      anticausalNeighborExists :=
        (anticausalNeighborExists t)[k :=
           map (\<lambda>l. neighborExists t ! k ! l \<and> \<not> dot (neighborOffsets t ! 0 ! l) strides < 0) [0..<j]
           @ drop j (anticausalNeighborExists t ! k)],
      neighborIndexLookup :=
        (neighborIndexLookup t)[k := neighborIndexLookup t ! k
           @ map int (filter (\<lambda>l. neighborExists t ! k ! l) [0..<j])]\<rparr>)"
  using assms(6-9)
proof (induction j)
  case 0
  show ?case by simp
next
  case (Suc j)
  let ?offs = "neighborOffsets t ! 0" and ?ex = "neighborExists t ! k"
  let ?fc = "\<lambda>l. ?ex ! l \<and> dot (?offs ! l) strides < 0"
  let ?fa = "\<lambda>l. ?ex ! l \<and> \<not> dot (?offs ! l) strides < 0"
  define tj where "tj = t\<lparr>
      neighborOffsets :=
        (if 0 < k
         then (neighborOffsets t)[k := neighborOffsets t ! k @ map (\<lambda>l. ?offs ! l) (filter (\<lambda>l. ?ex ! l) [0..<j])]
         else neighborOffsets t),
      causalNeighborExists :=
        (causalNeighborExists t)[k := map ?fc [0..<j] @ drop j (causalNeighborExists t ! k)],
      anticausalNeighborExists :=
        (anticausalNeighborExists t)[k := map ?fa [0..<j] @ drop j (anticausalNeighborExists t ! k)],
      neighborIndexLookup :=
        (neighborIndexLookup t)[k := neighborIndexLookup t ! k @ map int (filter (\<lambda>l. ?ex ! l) [0..<j])]\<rparr>"
  have IH: "forLoop [0..<j] (innerBody strides k) t = Some tj"
    unfolding tj_def using Suc by simp
  have j: "j < length ?offs" "j < length ?ex" "j < length (causalNeighborExists t ! k)"
          "j < length (anticausalNeighborExists t ! k)"
    using Suc.prems by simp_all
  have sel: "neighborExists tj = neighborExists t"
       "neighborOffsets tj ! 0 = ?offs"
       "length (neighborOffsets tj) = length (neighborOffsets t)"
       "causalNeighborExists tj ! k = map ?fc [0..<j] @ drop j (causalNeighborExists t ! k)"
       "anticausalNeighborExists tj ! k = map ?fa [0..<j] @ drop j (anticausalNeighborExists t ! k)"
       "length (causalNeighborExists tj) = length (causalNeighborExists t)"
       "length (anticausalNeighborExists tj) = length (anticausalNeighborExists t)"
       "length (neighborIndexLookup tj) = length (neighborIndexLookup t)"
    using assms(1-5) by (simp_all add: tj_def)
  have pre: "k < length (neighborOffsets tj)" "k < length (neighborExists tj)"
       "k < length (causalNeighborExists tj)" "k < length (anticausalNeighborExists tj)"
       "k < length (neighborIndexLookup tj)"
       "j < length (neighborOffsets tj ! 0)" "j < length (neighborExists tj ! k)"
       "j < length (causalNeighborExists tj ! k)" "j < length (anticausalNeighborExists tj ! k)"
    using assms(1-5) j by (simp_all add: sel)
  have step: "innerBody strides k j tj = Some (tj\<lparr>
      neighborOffsets :=
        (if 0 < k \<and> ?ex ! j
         then (neighborOffsets tj)[k := neighborOffsets tj ! k @ [?offs ! j]]
         else neighborOffsets tj),
      causalNeighborExists :=
        (causalNeighborExists tj)[k := (map ?fc [0..<j] @ drop j (causalNeighborExists t ! k))[j := ?fc j]],
      anticausalNeighborExists :=
        (anticausalNeighborExists tj)[k := (map ?fa [0..<j] @ drop j (anticausalNeighborExists t ! k))[j := ?fa j]],
      neighborIndexLookup :=
        (if ?ex ! j
         then (neighborIndexLookup tj)[k := neighborIndexLookup tj ! k @ [int j]]
         else neighborIndexLookup tj)\<rparr>)"
    using innerBody_step[OF pre, of strides] by (simp only: sel)
  have c_eq: "(map ?fc [0..<j] @ drop j (causalNeighborExists t ! k))[j := ?fc j]
      = map ?fc [0..<Suc j] @ drop (Suc j) (causalNeighborExists t ! k)"
    by (rule upd_prefix[OF j(3), of ?fc])
  have a_eq: "(map ?fa [0..<j] @ drop j (anticausalNeighborExists t ! k))[j := ?fa j]
      = map ?fa [0..<Suc j] @ drop (Suc j) (anticausalNeighborExists t ! k)"
    by (rule upd_prefix[OF j(4), of ?fa])
  have "forLoop [0..<Suc j] (innerBody strides k) t = innerBody strides k j tj"
    by (simp only: forLoop_Suc IH option.case)
  also note step[unfolded c_eq a_eq]
  finally have res: "forLoop [0..<Suc j] (innerBody strides k) t = Some (tj\<lparr>
      neighborOffsets :=
        (if 0 < k \<and> ?ex ! j
         then (neighborOffsets tj)[k := neighborOffsets tj ! k @ [?offs ! j]]
         else neighborOffsets tj),
      causalNeighborExists :=
        (causalNeighborExists tj)[k := map ?fc [0..<Suc j] @ drop (Suc j) (causalNeighborExists t ! k)],
      anticausalNeighborExists :=
        (anticausalNeighborExists tj)[k := map ?fa [0..<Suc j] @ drop (Suc j) (anticausalNeighborExists t ! k)],
      neighborIndexLookup :=
        (if ?ex ! j
         then (neighborIndexLookup tj)[k := neighborIndexLookup tj ! k @ [int j]]
         else neighborIndexLookup tj)\<rparr>)" .
  show ?case
    unfolding res option.inject
    using assms(1-5)
    by (intro tables.equality) (simp_all add: tj_def)
qed

lemma outerBody_step:
  assumes "k < length (neighborOffsets t)" "k < length (neighborExists t)"
    and "k < length (causalNeighborExists t)" "k < length (anticausalNeighborExists t)"
    and "k < length (neighborIndexLookup t)"
    and "length (neighborOffsets t ! 0) = unat neighborCount"
    and "length (neighborhoodExists N nt [] (of_nat k)) = unat neighborCount"
  shows "outerBody N nt strides neighborCount k t = Some (t\<lparr>
      neighborOffsets :=
        (if 0 < k
         then (neighborOffsets t)[k := map (\<lambda>l. neighborOffsets t ! 0 ! l)
                (filter (\<lambda>l. neighborhoodExists N nt [] (of_nat k) ! l) [0..<unat neighborCount])]
         else neighborOffsets t),
      neighborExists := (neighborExists t)[k := neighborhoodExists N nt [] (of_nat k)],
      causalNeighborExists :=
        (causalNeighborExists t)[k :=
           map (\<lambda>l. neighborhoodExists N nt [] (of_nat k) ! l \<and> dot (neighborOffsets t ! 0 ! l) strides < 0)
             [0..<unat neighborCount]],
      anticausalNeighborExists :=
        (anticausalNeighborExists t)[k :=
           map (\<lambda>l. neighborhoodExists N nt [] (of_nat k) ! l \<and> \<not> dot (neighborOffsets t ! 0 ! l) strides < 0)
             [0..<unat neighborCount]],
      neighborIndexLookup :=
        (neighborIndexLookup t)[k := neighborIndexLookup t ! k
           @ map int (filter (\<lambda>l. neighborhoodExists N nt [] (of_nat k) ! l) [0..<unat neighborCount])]\<rparr>)"
proof -
  let ?E = "neighborhoodExists N nt [] (of_nat k)"
  let ?cnt = "unat neighborCount"
  define t1 where "t1 = (if 0 < k then t\<lparr>neighborOffsets := (neighborOffsets t)[k := []]\<rparr> else t)"
  define t2 where "t2 = t1\<lparr>neighborExists := (neighborExists t)[k := ?E],
      causalNeighborExists := (causalNeighborExists t)[k := resize ?cnt False (causalNeighborExists t ! k)],
      anticausalNeighborExists := (anticausalNeighborExists t)[k := resize ?cnt False (anticausalNeighborExists t ! k)]\<rparr>"
  have s1: "(if 0 < k then do { n \<leftarrow> clear2 (neighborOffsets t) k; Some (t\<lparr>neighborOffsets := n\<rparr>) } else Some t)
      = Some t1"
    using assms(1) by (simp add: t1_def clear2_Some)
  have f1: "neighborExists t1 = neighborExists t" "causalNeighborExists t1 = causalNeighborExists t"
      "anticausalNeighborExists t1 = anticausalNeighborExists t"
      "neighborIndexLookup t1 = neighborIndexLookup t"
      "length (neighborOffsets t1) = length (neighborOffsets t)"
      "neighborOffsets t1 ! 0 = neighborOffsets t ! 0"
    by (simp_all add: t1_def)
  have s2: "clear2 (neighborExists t1) k = Some ((neighborExists t)[k := []])"
    using assms(2) by (simp add: f1 clear2_Some)
  have s3: "updRow ((neighborExists t)[k := []]) k (\<lambda>a. Some (neighborhoodExists N nt a (of_nat k)))
      = Some ((neighborExists t)[k := ?E])"
    using assms(2) updRow_Some[of k "(neighborExists t)[k := []]" "\<lambda>a. Some (neighborhoodExists N nt a (of_nat k))" ?E]
    by simp
  have s4: "resize2 (causalNeighborExists t1) k ?cnt False
      = Some ((causalNeighborExists t)[k := resize ?cnt False (causalNeighborExists t ! k)])"
    using assms(3) by (simp add: f1 resize2_Some)
  have s5: "resize2 (anticausalNeighborExists t1) k ?cnt False
      = Some ((anticausalNeighborExists t)[k := resize ?cnt False (anticausalNeighborExists t ! k)])"
    using assms(4) by (simp add: f1 resize2_Some)
  have run: "outerBody N nt strides neighborCount k t = forLoop [0..<?cnt] (innerBody strides k) t2"
    unfolding outerBody_def s1 by (simp add: s2 s3 s4 s5 t2_def)
  have f2: "neighborOffsets t2 = neighborOffsets t1" "neighborExists t2 ! k = ?E"
      "causalNeighborExists t2 ! k = resize ?cnt False (causalNeighborExists t ! k)"
      "anticausalNeighborExists t2 ! k = resize ?cnt False (anticausalNeighborExists t ! k)"
      "neighborIndexLookup t2 = neighborIndexLookup t"
      "length (neighborExists t2) = length (neighborExists t)"
      "length (causalNeighborExists t2) = length (causalNeighborExists t)"
      "length (anticausalNeighborExists t2) = length (anticausalNeighborExists t)"
    using assms(2-4) by (simp_all add: t2_def f1)
  have pre: "k < length (neighborOffsets t2)" "k < length (neighborExists t2)"
      "k < length (causalNeighborExists t2)" "k < length (anticausalNeighborExists t2)"
      "k < length (neighborIndexLookup t2)"
      "?cnt \<le> length (neighborOffsets t2 ! 0)" "?cnt \<le> length (neighborExists t2 ! k)"
      "?cnt \<le> length (causalNeighborExists t2 ! k)" "?cnt \<le> length (anticausalNeighborExists t2 ! k)"
    using assms by (simp_all add: f2 f1 length_resize)
  show ?thesis
    unfolding run innerLoop_result[OF pre] option.inject
    using assms(1-5)
    by (intro tables.equality) (simp_all add: f2 f1 length_resize, simp_all add: t2_def t1_def)
qed

lemma nth_prefix_drop: "j < length X \<Longrightarrow> (map F [0..<j] @ drop j X) ! j = X ! j"
  by (simp add: nth_append)

lemma nth_prefix_drop_0: "0 < length X \<Longrightarrow> (map F [0..<j] @ drop j X) ! 0 = (if 0 < j then F 0 else X ! 0)"
  by (cases j) (simp_all add: nth_append upt_conv_Cons)

lemma outerLoop_result:
  assumes "length (neighborOffsets t) = sz" "length (neighborExists t) = sz"
    and "length (causalNeighborExists t) = sz" "length (anticausalNeighborExists t) = sz"
    and "length (neighborIndexLookup t) = sz"
    and "length (neighborOffsets t ! 0) = unat neighborCount"
    and "\<forall>k < sz. length (neighborhoodExists N nt [] (of_nat k)) = unat neighborCount"
    and "j \<le> sz"
  shows "forLoop [0..<j] (outerBody N nt strides neighborCount) t = Some (t\<lparr>
      neighborOffsets :=
        map (\<lambda>k. if 0 < k
                 then map (\<lambda>l. neighborOffsets t ! 0 ! l)
                        (filter (\<lambda>l. neighborhoodExists N nt [] (of_nat k) ! l) [0..<unat neighborCount])
                 else neighborOffsets t ! 0) [0..<j]
        @ drop j (neighborOffsets t),
      neighborExists :=
        map (\<lambda>k. neighborhoodExists N nt [] (of_nat k)) [0..<j] @ drop j (neighborExists t),
      causalNeighborExists :=
        map (\<lambda>k. map (\<lambda>l. neighborhoodExists N nt [] (of_nat k) ! l \<and> dot (neighborOffsets t ! 0 ! l) strides < 0)
                    [0..<unat neighborCount]) [0..<j]
        @ drop j (causalNeighborExists t),
      anticausalNeighborExists :=
        map (\<lambda>k. map (\<lambda>l. neighborhoodExists N nt [] (of_nat k) ! l \<and> \<not> dot (neighborOffsets t ! 0 ! l) strides < 0)
                    [0..<unat neighborCount]) [0..<j]
        @ drop j (anticausalNeighborExists t),
      neighborIndexLookup :=
        map (\<lambda>k. neighborIndexLookup t ! k
                 @ map int (filter (\<lambda>l. neighborhoodExists N nt [] (of_nat k) ! l) [0..<unat neighborCount])) [0..<j]
        @ drop j (neighborIndexLookup t)\<rparr>)"
  using assms(8)
proof (induction j)
  case 0
  show ?case by simp
next
  case (Suc j)
  let ?cnt = "unat neighborCount"
  let ?offs = "neighborOffsets t ! 0"
  let ?E = "\<lambda>k. neighborhoodExists N nt [] (of_nat k)"
  let ?NO = "\<lambda>k. if 0 < k then map (\<lambda>l. ?offs ! l) (filter (\<lambda>l. ?E k ! l) [0..<?cnt]) else ?offs"
  let ?C = "\<lambda>k. map (\<lambda>l. ?E k ! l \<and> dot (?offs ! l) strides < 0) [0..<?cnt]"
  let ?A = "\<lambda>k. map (\<lambda>l. ?E k ! l \<and> \<not> dot (?offs ! l) strides < 0) [0..<?cnt]"
  let ?LK = "\<lambda>k. neighborIndexLookup t ! k @ map int (filter (\<lambda>l. ?E k ! l) [0..<?cnt])"
  define tj where "tj = t\<lparr>
      neighborOffsets := map ?NO [0..<j] @ drop j (neighborOffsets t),
      neighborExists := map ?E [0..<j] @ drop j (neighborExists t),
      causalNeighborExists := map ?C [0..<j] @ drop j (causalNeighborExists t),
      anticausalNeighborExists := map ?A [0..<j] @ drop j (anticausalNeighborExists t),
      neighborIndexLookup := map ?LK [0..<j] @ drop j (neighborIndexLookup t)\<rparr>"
  have IH: "forLoop [0..<j] (outerBody N nt strides neighborCount) t = Some tj"
    unfolding tj_def using Suc by simp
  have j: "j < sz" using Suc.prems by simp
  have jl: "j < length (neighborOffsets t)" "j < length (neighborExists t)"
      "j < length (causalNeighborExists t)" "j < length (anticausalNeighborExists t)"
      "j < length (neighborIndexLookup t)" "0 < length (neighborOffsets t)"
    using j assms(1-5) by simp_all
  have sel: "neighborOffsets tj = map ?NO [0..<j] @ drop j (neighborOffsets t)"
      "neighborExists tj = map ?E [0..<j] @ drop j (neighborExists t)"
      "causalNeighborExists tj = map ?C [0..<j] @ drop j (causalNeighborExists t)"
      "anticausalNeighborExists tj = map ?A [0..<j] @ drop j (anticausalNeighborExists t)"
      "neighborIndexLookup tj = map ?LK [0..<j] @ drop j (neighborIndexLookup t)"
    by (simp_all add: tj_def)
  have row0: "neighborOffsets tj ! 0 = ?offs"
    unfolding sel using nth_prefix_drop_0[OF jl(6), of ?NO j] by simp
  have rowj: "neighborIndexLookup tj ! j = neighborIndexLookup t ! j"
    unfolding sel by (rule nth_prefix_drop[OF jl(5)])
  have rowno: "j = 0 \<Longrightarrow> neighborOffsets tj = neighborOffsets t"
    unfolding sel by simp
  have pre: "j < length (neighborOffsets tj)" "j < length (neighborExists tj)"
      "j < length (causalNeighborExists tj)" "j < length (anticausalNeighborExists tj)"
      "j < length (neighborIndexLookup tj)"
      "length (neighborOffsets tj ! 0) = ?cnt"
      "length (neighborhoodExists N nt [] (of_nat j)) = ?cnt"
    using jl assms(6,7) j by (simp_all add: row0) (simp_all add: sel)
  have no_eq: "(if 0 < j then (neighborOffsets tj)[j := map (\<lambda>l. ?offs ! l) (filter (\<lambda>l. ?E j ! l) [0..<?cnt])]
                else neighborOffsets tj)
      = map ?NO [0..<Suc j] @ drop (Suc j) (neighborOffsets t)"
  proof (cases "0 < j")
    case True
    then show ?thesis
      unfolding sel using upd_prefix[OF jl(1), of ?NO] by simp
  next
    case False
    then have j0: "j = 0" by simp
    have "neighborOffsets t = ?offs # drop (Suc 0) (neighborOffsets t)"
      using jl(6) Cons_nth_drop_Suc[of 0 "neighborOffsets t"] by simp
    then show ?thesis
      unfolding rowno[OF j0] j0 by simp
  qed
  have step: "outerBody N nt strides neighborCount j tj = Some (tj\<lparr>
      neighborOffsets := map ?NO [0..<Suc j] @ drop (Suc j) (neighborOffsets t),
      neighborExists := map ?E [0..<Suc j] @ drop (Suc j) (neighborExists t),
      causalNeighborExists := map ?C [0..<Suc j] @ drop (Suc j) (causalNeighborExists t),
      anticausalNeighborExists := map ?A [0..<Suc j] @ drop (Suc j) (anticausalNeighborExists t),
      neighborIndexLookup := map ?LK [0..<Suc j] @ drop (Suc j) (neighborIndexLookup t)\<rparr>)"
    unfolding outerBody_step[OF pre, of strides] row0 rowj no_eq
    unfolding sel
    unfolding upd_prefix[OF jl(2), of ?E] upd_prefix[OF jl(3), of ?C] upd_prefix[OF jl(4), of ?A]
      upd_prefix[OF jl(5), of ?LK]
    ..
  have res: "forLoop [0..<Suc j] (outerBody N nt strides neighborCount) t = outerBody N nt strides neighborCount j tj"
    by (simp only: forLoop_Suc IH option.case)
  show ?case
    unfolding res step option.inject
    by (intro tables.equality) (simp_all add: tj_def)
qed

lemma tableSize: "N \<le> 15 \<Longrightarrow> unat (push_bit (2 * N) 1 :: uint) = 2 ^ (2 * N)"
proof -
  assume "N \<le> 15"
  then have "2 * N < 32" by simp
  then have lt: "(2::nat) ^ (2 * N) < 2 ^ 32" by (simp only: power_strict_increasing_iff)
  have a: "unat (word_of_nat (2 ^ (2 * N)) :: uint) = 2 ^ (2 * N) mod 2 ^ LENGTH(32)"
    by (rule unat_of_nat)
  have b: "(word_of_nat (2 ^ (2 * N)) :: uint) = push_bit (2 * N) 1" by simp
  from lt have c: "(2::nat) ^ (2 * N) mod 2 ^ LENGTH(32) = 2 ^ (2 * N)" by simp
  show ?thesis unfolding b[symmetric] a c ..
qed

lemma neighborCount_bound:
  assumes "1 \<le> N" "N \<le> 15"
  shows "length (neighborhoodOffsets N nt []) < 2 ^ 32"
proof -
  from assms(1) obtain L where N: "N = Suc L" by (cases N) auto
  have "(3::nat) ^ N \<le> 3 ^ 15" using assms(2) by (simp only: power_increasing_iff)
  then have p: "(3::nat) ^ N < 2 ^ 32" by simp
  show ?thesis
  proof (cases nt)
    case DirectNeighborhood
    have "2 * N < 2 ^ 32" using assms(2) by simp
    then show ?thesis
      by (simp add: neighborhoodOffsets_def DirectNeighborhood N length_dOff)
  next
    case IndirectNeighborhood
    have "length (neighborhoodOffsets N nt []) = 3 ^ N - 1"
      by (simp add: neighborhoodOffsets_def IndirectNeighborhood N length_iOff)
    with p show ?thesis by simp
  qed
qed

lemma neighborCount_fits:
  assumes "1 \<le> N" "N \<le> 15"
  shows "unat (word_of_nat (length (neighborhoodOffsets N nt [])) :: uint) = length (neighborhoodOffsets N nt [])"
  using neighborCount_bound[OF assms, of nt] by (simp add: unat_of_nat)

lemma length_neighborhoodExists:
  "1 \<le> N \<Longrightarrow> length (neighborhoodExists N nt [] k) = length (neighborhoodOffsets N nt [])"
  by (cases N; cases nt)
     (simp_all add: neighborhoodExists_def neighborhoodOffsets_def length_dOff length_dEx length_iOff length_iEx)

lemma makeArrayNeighborhood_result:
  assumes "1 \<le> N" "N \<le> 15"
  shows "makeArrayNeighborhood N nt t = Some \<lparr>
      neighborOffsets =
        map (\<lambda>k. if 0 < k
                 then map (\<lambda>l. neighborhoodOffsets N nt [] ! l)
                        (filter (\<lambda>l. neighborhoodExists N nt [] (of_nat k) ! l)
                           [0..<length (neighborhoodOffsets N nt [])])
                 else neighborhoodOffsets N nt []) [0..<2 ^ (2 * N)],
      neighborExists = map (\<lambda>k. neighborhoodExists N nt [] (of_nat k)) [0..<2 ^ (2 * N)],
      causalNeighborExists =
        map (\<lambda>k. map (\<lambda>l. neighborhoodExists N nt [] (of_nat k) ! l
                            \<and> dot (neighborhoodOffsets N nt [] ! l) (naturalStrides N) < 0)
                    [0..<length (neighborhoodOffsets N nt [])]) [0..<2 ^ (2 * N)],
      anticausalNeighborExists =
        map (\<lambda>k. map (\<lambda>l. neighborhoodExists N nt [] (of_nat k) ! l
                            \<and> \<not> dot (neighborhoodOffsets N nt [] ! l) (naturalStrides N) < 0)
                    [0..<length (neighborhoodOffsets N nt [])]) [0..<2 ^ (2 * N)],
      neighborIndexLookup =
        map (\<lambda>k. resize (2 ^ (2 * N)) [] (neighborIndexLookup t) ! k
                 @ map int (filter (\<lambda>l. neighborhoodExists N nt [] (of_nat k) ! l)
                              [0..<length (neighborhoodOffsets N nt [])])) [0..<2 ^ (2 * N)]\<rparr>"
proof -
  let ?sz = "(2::nat) ^ (2 * N)"
  let ?offs = "neighborhoodOffsets N nt []"
  let ?nc = "word_of_nat (length ?offs) :: uint"
  define n0 where "n0 = (resize ?sz [] (neighborOffsets t))[0 := ?offs]"
  define t1 where "t1 = t\<lparr>neighborOffsets := n0,
      neighborExists := resize ?sz [] (neighborExists t),
      causalNeighborExists := resize ?sz [] (causalNeighborExists t),
      anticausalNeighborExists := resize ?sz [] (anticausalNeighborExists t),
      neighborIndexLookup := resize ?sz [] (neighborIndexLookup t)\<rparr>"
  have N0: "N \<noteq> 0" using assms(1) by simp
  have sz: "unat (push_bit (2 * N) 1 :: uint) = ?sz" by (rule tableSize[OF assms(2)])
  have pos: "0 < length (resize ?sz [] (neighborOffsets t))" by (simp add: length_resize)
  have s1: "clear2 (resize ?sz [] (neighborOffsets t)) 0 = Some ((resize ?sz [] (neighborOffsets t))[0 := []])"
    by (rule clear2_Some[OF pos])
  have s2: "updRow ((resize ?sz [] (neighborOffsets t))[0 := []]) 0 (\<lambda>a. Some (neighborhoodOffsets N nt a)) = Some n0"
    using pos updRow_Some[of 0 "(resize ?sz [] (neighborOffsets t))[0 := []]" "\<lambda>a. Some (neighborhoodOffsets N nt a)" ?offs]
    by (simp add: n0_def)
  have n0: "length n0 = ?sz" "n0 ! 0 = ?offs"
    using pos by (simp_all add: n0_def length_resize)
  have s3: "at n0 0 = Some ?offs"
    using n0 at_Some[of 0 n0] by simp
  have run: "makeArrayNeighborhood N nt t = forLoop [0..<?sz] (outerBody N nt (naturalStrides N) ?nc) t1"
    unfolding makeArrayNeighborhood_def Let_def sz s1
    by (simp add: N0 s2 s3 t1_def)
  have cnt: "unat ?nc = length ?offs" by (rule neighborCount_fits[OF assms])
  have pre: "length (neighborOffsets t1) = ?sz" "length (neighborExists t1) = ?sz"
      "length (causalNeighborExists t1) = ?sz" "length (anticausalNeighborExists t1) = ?sz"
      "length (neighborIndexLookup t1) = ?sz"
      "length (neighborOffsets t1 ! 0) = unat ?nc"
      "\<forall>k < ?sz. length (neighborhoodExists N nt [] (of_nat k)) = unat ?nc"
      "?sz \<le> ?sz"
    by (simp_all add: t1_def n0 length_resize cnt length_neighborhoodExists[OF assms(1)])
  have sel: "neighborOffsets t1 ! 0 = ?offs" "neighborIndexLookup t1 = resize ?sz [] (neighborIndexLookup t)"
    by (simp_all add: t1_def n0)
  show ?thesis
    unfolding run outerLoop_result[OF pre] cnt sel
    by (simp add: t1_def n0 length_resize)
qed

lemma makeArrayNeighborhood_rows:
  assumes "1 \<le> N" "N \<le> 15" "k < 2 ^ (2 * N)"
  obtains t' where "makeArrayNeighborhood N nt t = Some t'"
    and "neighborOffsets t' ! 0 = neighborhoodOffsets N nt []"
    and "neighborOffsets t' ! k =
          (if 0 < k
           then map (\<lambda>l. neighborhoodOffsets N nt [] ! l)
                  (filter (\<lambda>l. neighborhoodExists N nt [] (of_nat k) ! l)
                     [0..<length (neighborhoodOffsets N nt [])])
           else neighborhoodOffsets N nt [])"
    and "neighborExists t' ! k = neighborhoodExists N nt [] (of_nat k)"
    and "causalNeighborExists t' ! k =
          map (\<lambda>l. neighborhoodExists N nt [] (of_nat k) ! l
                    \<and> dot (neighborhoodOffsets N nt [] ! l) (naturalStrides N) < 0)
            [0..<length (neighborhoodOffsets N nt [])]"
    and "anticausalNeighborExists t' ! k =
          map (\<lambda>l. neighborhoodExists N nt [] (of_nat k) ! l
                    \<and> \<not> dot (neighborhoodOffsets N nt [] ! l) (naturalStrides N) < 0)
            [0..<length (neighborhoodOffsets N nt [])]"
    and "neighborIndexLookup t' ! k =
          resize (2 ^ (2 * N)) [] (neighborIndexLookup t) ! k
          @ map int (filter (\<lambda>l. neighborhoodExists N nt [] (of_nat k) ! l)
                       [0..<length (neighborhoodOffsets N nt [])])"
    and "length (neighborOffsets t') = 2 ^ (2 * N)" and "length (neighborExists t') = 2 ^ (2 * N)"
    and "length (causalNeighborExists t') = 2 ^ (2 * N)"
    and "length (anticausalNeighborExists t') = 2 ^ (2 * N)"
    and "length (neighborIndexLookup t') = 2 ^ (2 * N)"
proof -
  have z: "(0::nat) < 2 ^ (2 * N)" by simp
  note r = makeArrayNeighborhood_result[OF assms(1,2), of nt t]
  show thesis
    by (rule that[OF r]) (use assms(3) z in \<open>simp_all only: tables.select_convs nth_map length_map length_upt diff_zero nth_upt add_0 less_irrefl if_False\<close>)
qed

text \<open>
  C5: for every border code \<open>k\<close> in \<open>[0, 2^(2N))\<close> and every neighbor index \<open>l\<close>, the
  causal flag is true iff the neighbor exists and its natural stride is negative, the
  anticausal flag is true iff it exists and the stride is non-negative; no index has both
  flags, and their disjunction is the existence flag.  The tables are indexed by an
  \<open>unsigned int\<close> of 32 bits: \<open>1 << 2*N\<close> is the table size for \<open>N \<le> 15\<close>.  The property
  holds whatever the output containers held before the call.
\<close>

theorem causal_anticausal_partition:
  assumes "1 \<le> N" and "N \<le> 15" and "k < 2 ^ (2 * N)"
  shows "\<exists>t'. makeArrayNeighborhood N nt t = Some t'
     \<and> k < length (neighborExists t') \<and> k < length (causalNeighborExists t')
     \<and> k < length (anticausalNeighborExists t')
     \<and> length (neighborExists t' ! k) = length (neighborOffsets t' ! 0)
     \<and> length (causalNeighborExists t' ! k) = length (neighborOffsets t' ! 0)
     \<and> length (anticausalNeighborExists t' ! k) = length (neighborOffsets t' ! 0)
     \<and> (\<forall>l < length (neighborOffsets t' ! 0).
           (causalNeighborExists t' ! k ! l \<longleftrightarrow>
              neighborExists t' ! k ! l \<and> dot (neighborOffsets t' ! 0 ! l) (naturalStrides N) < 0)
         \<and> (anticausalNeighborExists t' ! k ! l \<longleftrightarrow>
              neighborExists t' ! k ! l \<and> 0 \<le> dot (neighborOffsets t' ! 0 ! l) (naturalStrides N))
         \<and> \<not> (causalNeighborExists t' ! k ! l \<and> anticausalNeighborExists t' ! k ! l)
         \<and> (causalNeighborExists t' ! k ! l \<or> anticausalNeighborExists t' ! k ! l \<longleftrightarrow>
              neighborExists t' ! k ! l))"
proof -
  from assms obtain t' where t': "makeArrayNeighborhood N nt t = Some t'"
    and rows: "neighborOffsets t' ! 0 = neighborhoodOffsets N nt []"
      "neighborExists t' ! k = neighborhoodExists N nt [] (of_nat k)"
      "causalNeighborExists t' ! k =
          map (\<lambda>l. neighborhoodExists N nt [] (of_nat k) ! l
                    \<and> dot (neighborhoodOffsets N nt [] ! l) (naturalStrides N) < 0)
            [0..<length (neighborhoodOffsets N nt [])]"
      "anticausalNeighborExists t' ! k =
          map (\<lambda>l. neighborhoodExists N nt [] (of_nat k) ! l
                    \<and> \<not> dot (neighborhoodOffsets N nt [] ! l) (naturalStrides N) < 0)
            [0..<length (neighborhoodOffsets N nt [])]"
    and lens: "length (neighborExists t') = 2 ^ (2 * N)" "length (causalNeighborExists t') = 2 ^ (2 * N)"
      "length (anticausalNeighborExists t') = 2 ^ (2 * N)"
    by (rule makeArrayNeighborhood_rows[of N k nt t]) blast
  have len: "length (neighborhoodExists N nt [] (of_nat k)) = length (neighborhoodOffsets N nt [])"
    by (rule length_neighborhoodExists[OF assms(1)])
  show ?thesis
    using t' assms(3) len by (auto simp: rows lens)
qed

theorem causal_anticausal_partition_witness:
  "(1::nat) \<le> 1 \<and> (1::nat) \<le> 15 \<and> (1::nat) < 2 ^ (2 * 1)
   \<and> (\<exists>t'. makeArrayNeighborhood 1 DirectNeighborhood emptyTables = Some t'
         \<and> neighborExists t' ! 1 = [False, True]
         \<and> causalNeighborExists t' ! 1 = [False, False]
         \<and> anticausalNeighborExists t' ! 1 = [False, True]
         \<and> (anticausalNeighborExists t' ! 1 ! 1 \<longleftrightarrow>
              neighborExists t' ! 1 ! 1 \<and> 0 \<le> dot (neighborOffsets t' ! 0 ! 1) (naturalStrides 1)))"
proof -
  have run: "makeArrayNeighborhood (Suc 0) DirectNeighborhood emptyTables = Some
     \<lparr>neighborOffsets = [[[- 1], [1]], [[1]], [[- 1]], []],
      neighborExists = [[True, True], [False, True], [True, False], [False, False]],
      causalNeighborExists = [[True, False], [False, False], [True, False], [False, False]],
      anticausalNeighborExists = [[False, True], [False, True], [False, False], [False, False]],
      neighborIndexLookup = [[0, 1], [1], [0], []]\<rparr>"
    by code_simp
  show ?thesis
    using causal_anticausal_partition[of 1 1 DirectNeighborhood emptyTables]
    by (auto simp: run)
qed

lemma count_list_map_True: "count_list (map f xs) True = length (filter f xs)"
  by (induction xs) simp_all

lemma count_list_nth: "count_list xs True = length (filter (\<lambda>l. xs ! l) [0..<length xs])"
  using count_list_map_True[of "\<lambda>l. xs ! l" "[0..<length xs]"] by (simp only: map_nth)

lemma length_filter_split:
  "length (filter (\<lambda>l. e l \<and> s l) xs) + length (filter (\<lambda>l. e l \<and> \<not> s l) xs) = length (filter e xs)"
  by (induction xs) auto

lemma dEx_interior: "b \<in> set (MakeDirectArrayNeighborhood_exists L [] 0) \<Longrightarrow> b"
  by (induction L) (auto simp: dEx_0 dEx_Suc)

lemma iEx_interior: "b \<in> set (MakeIndirectArrayNeighborhood_exists L [] 0 c) \<Longrightarrow> b"
  by (induction L arbitrary: c) (auto simp: iEx_0 iEx_Suc split: if_splits)

lemma neighborhoodExists_interior: "b \<in> set (neighborhoodExists N nt [] 0) \<Longrightarrow> b"
  using dEx_interior iEx_interior by (auto simp: neighborhoodExists_def split: if_splits)

lemma filter_interior:
  "filter (\<lambda>l. neighborhoodExists N nt [] 0 ! l) [0..<length (neighborhoodExists N nt [] 0)]
     = [0..<length (neighborhoodExists N nt [] 0)]"
proof (rule filter_True, rule ballI)
  fix l assume "l \<in> set [0..<length (neighborhoodExists N nt [] 0)]"
  then have "l < length (neighborhoodExists N nt [] 0)" by simp
  then have "neighborhoodExists N nt [] 0 ! l \<in> set (neighborhoodExists N nt [] 0)" by (rule nth_mem)
  then show "neighborhoodExists N nt [] 0 ! l" by (rule neighborhoodExists_interior)
qed

lemma sorted_index_list: "sorted_wrt (<) (map int (filter P [0..<n]))"
proof -
  have "sorted_wrt (<) (filter P [0..<n])" by (rule sorted_wrt_filter) simp
  then show ?thesis by (simp add: sorted_wrt_map)
qed

text \<open>
  C6: for every border code \<open>k\<close> in \<open>[0, 2^(2N))\<close>, \<open>neighborIndexLookup[k]\<close> lists in
  ascending order exactly the indices \<open>l\<close> with \<open>neighborExists[k][l]\<close> true; its size is
  the number of true entries of \<open>neighborExists[k]\<close> and the sum of the numbers of true
  entries of the causal and the anticausal table; \<open>neighborOffsets[0]\<close> is the full
  canonical list and \<open>neighborOffsets[k]\<close> has the size of \<open>neighborIndexLookup[k]\<close>.
  The tables are built into a default-constructed \<open>neighborIndexLookup\<close>; the other
  output containers may hold anything.  \<open>1 << 2*N\<close> is the table size for \<open>N \<le> 15\<close>.
\<close>

theorem index_lookup_lists_existing_neighbors:
  assumes "1 \<le> N" and "N \<le> 15" and "k < 2 ^ (2 * N)" and "neighborIndexLookup t = []"
  shows "\<exists>t'. makeArrayNeighborhood N nt t = Some t'
     \<and> k < length (neighborIndexLookup t') \<and> k < length (neighborOffsets t')
     \<and> neighborIndexLookup t' ! k
          = map int (filter (\<lambda>l. neighborExists t' ! k ! l) [0..<length (neighborExists t' ! k)])
     \<and> sorted_wrt (<) (neighborIndexLookup t' ! k)
     \<and> length (neighborIndexLookup t' ! k) = count_list (neighborExists t' ! k) True
     \<and> length (neighborIndexLookup t' ! k)
          = count_list (causalNeighborExists t' ! k) True + count_list (anticausalNeighborExists t' ! k) True
     \<and> neighborOffsets t' ! 0 = neighborhoodOffsets N nt []
     \<and> length (neighborOffsets t' ! k) = length (neighborIndexLookup t' ! k)"
proof -
  let ?offs = "neighborhoodOffsets N nt []"
  let ?E = "neighborhoodExists N nt [] (of_nat k)"
  let ?s = "\<lambda>l. dot (?offs ! l) (naturalStrides N) < 0"
  from assms(1-3) obtain t' where t': "makeArrayNeighborhood N nt t = Some t'"
    and no0: "neighborOffsets t' ! 0 = ?offs"
    and nok: "neighborOffsets t' ! k =
          (if 0 < k then map (\<lambda>l. ?offs ! l) (filter (\<lambda>l. ?E ! l) [0..<length ?offs]) else ?offs)"
    and ne: "neighborExists t' ! k = ?E"
    and c: "causalNeighborExists t' ! k = map (\<lambda>l. ?E ! l \<and> ?s l) [0..<length ?offs]"
    and a: "anticausalNeighborExists t' ! k = map (\<lambda>l. ?E ! l \<and> \<not> ?s l) [0..<length ?offs]"
    and lk0: "neighborIndexLookup t' ! k =
          resize (2 ^ (2 * N)) [] (neighborIndexLookup t) ! k @ map int (filter (\<lambda>l. ?E ! l) [0..<length ?offs])"
    and lens: "length (neighborOffsets t') = 2 ^ (2 * N)" "length (neighborIndexLookup t') = 2 ^ (2 * N)"
    by (rule makeArrayNeighborhood_rows[of N k nt t]) blast
  have len: "length ?E = length ?offs"
    by (rule length_neighborhoodExists[OF assms(1)])
  have "resize (2 ^ (2 * N)) [] (neighborIndexLookup t) ! k = []"
    using assms(3,4) by (simp add: resize_def)
  then have lk: "neighborIndexLookup t' ! k = map int (filter (\<lambda>l. ?E ! l) [0..<length ?E])"
    by (simp add: lk0 len)
  have cnt: "length (neighborIndexLookup t' ! k) = count_list ?E True"
    by (simp add: lk count_list_nth)
  have split: "length (neighborIndexLookup t' ! k)
      = count_list (causalNeighborExists t' ! k) True + count_list (anticausalNeighborExists t' ! k) True"
    unfolding c a count_list_map_True length_filter_split lk len by simp
  have nolen: "length (neighborOffsets t' ! k) = length (neighborIndexLookup t' ! k)"
  proof (cases "0 < k")
    case True
    then show ?thesis by (simp add: nok lk len)
  next
    case False
    then have k0: "k = 0" by simp
    have "length (neighborIndexLookup t' ! k) = length (filter (\<lambda>l. ?E ! l) [0..<length ?E])"
      by (simp add: lk)
    also have "\<dots> = length [0..<length ?E]"
      using filter_interior[of N nt] by (simp add: k0)
    also have "\<dots> = length ?offs" by (simp add: len)
    finally show ?thesis by (simp add: k0 no0)
  qed
  show ?thesis
    using t' assms(3) lk cnt split no0 nolen sorted_index_list[of "\<lambda>l. ?E ! l" "length ?E"]
    by (simp add: lens ne)
qed

theorem index_lookup_lists_existing_neighbors_witness:
  "(1::nat) \<le> 1 \<and> (1::nat) \<le> 15 \<and> (2::nat) < 2 ^ (2 * 1) \<and> neighborIndexLookup emptyTables = []
   \<and> (\<exists>t'. makeArrayNeighborhood 1 IndirectNeighborhood emptyTables = Some t'
         \<and> neighborExists t' ! 2 = [True, False]
         \<and> neighborIndexLookup t' ! 2 = [0]
         \<and> neighborOffsets t' ! 2 = [[- 1]]
         \<and> length (neighborIndexLookup t' ! 2) = count_list (neighborExists t' ! 2) True)"
proof -
  have run: "makeArrayNeighborhood (Suc 0) IndirectNeighborhood emptyTables = Some
     \<lparr>neighborOffsets = [[[- 1], [1]], [[1]], [[- 1]], []],
      neighborExists = [[True, True], [False, True], [True, False], [False, False]],
      causalNeighborExists = [[True, False], [False, False], [True, False], [False, False]],
      anticausalNeighborExists = [[False, True], [False, True], [False, False], [False, False]],
      neighborIndexLookup = [[0, 1], [1], [0], []]\<rparr>"
    by code_simp
  have e: "neighborIndexLookup emptyTables = []" by (simp add: emptyTables_def)
  show ?thesis
    using index_lookup_lists_existing_neighbors[of 1 2 emptyTables IndirectNeighborhood] e
    by (auto simp: run)
qed

section \<open>The flat strides built by makeArraySubNeighborhood\<close>

lemma subBody_step:
  assumes "k < length ni" "k < length ex" "l < length (ex ! k)" "l < length offs"
  shows "subBody offs ex strides k l ni
     = Some (if ex ! k ! l then ni[k := ni ! k @ [dot (offs ! l) strides]] else ni)"
  using assms by (simp add: subBody_def get2_Some at_Some push2_Some)

lemma subInner_result:
  assumes "k < length ni" "k < length ex" "j \<le> length (ex ! k)" "j \<le> length offs"
  shows "forLoop [0..<j] (subBody offs ex strides k) ni
     = Some (ni[k := ni ! k @ map (\<lambda>l. dot (offs ! l) strides) (filter (\<lambda>l. ex ! k ! l) [0..<j])])"
  using assms(3,4)
proof (induction j)
  case 0
  show ?case by simp
next
  case (Suc j)
  define nj where "nj = ni[k := ni ! k @ map (\<lambda>l. dot (offs ! l) strides) (filter (\<lambda>l. ex ! k ! l) [0..<j])]"
  have IH: "forLoop [0..<j] (subBody offs ex strides k) ni = Some nj"
    unfolding nj_def using Suc by simp
  have pre: "k < length nj" "k < length ex" "j < length (ex ! k)" "j < length offs"
    using assms(1,2) Suc.prems by (simp_all add: nj_def)
  have "forLoop [0..<Suc j] (subBody offs ex strides k) ni = subBody offs ex strides k j nj"
    by (simp only: forLoop_Suc IH option.case)
  then show ?case
    unfolding subBody_step[OF pre] using assms(1) by (simp add: nj_def)
qed

lemma subOuter_result:
  assumes "length ni = sz" "sz \<le> length ex" "\<forall>k < sz. cnt \<le> length (ex ! k)" "cnt \<le> length offs"
    and "j \<le> sz"
  shows "forLoop [0..<j] (\<lambda>k. forLoop [0..<cnt] (subBody offs ex strides k)) ni
     = Some (map (\<lambda>k. ni ! k @ map (\<lambda>l. dot (offs ! l) strides) (filter (\<lambda>l. ex ! k ! l) [0..<cnt])) [0..<j]
             @ drop j ni)"
  using assms(5)
proof (induction j)
  case 0
  show ?case by simp
next
  case (Suc j)
  let ?F = "\<lambda>k. ni ! k @ map (\<lambda>l. dot (offs ! l) strides) (filter (\<lambda>l. ex ! k ! l) [0..<cnt])"
  define nj where "nj = map ?F [0..<j] @ drop j ni"
  have IH: "forLoop [0..<j] (\<lambda>k. forLoop [0..<cnt] (subBody offs ex strides k)) ni = Some nj"
    unfolding nj_def using Suc by simp
  have j: "j < length ni" using Suc.prems assms(1) by simp
  have pre: "j < length nj" "j < length ex" "cnt \<le> length (ex ! j)" "cnt \<le> length offs"
    using j assms Suc.prems by (simp_all add: nj_def)
  have rowj: "nj ! j = ni ! j" unfolding nj_def by (rule nth_prefix_drop[OF j])
  have "forLoop [0..<Suc j] (\<lambda>k. forLoop [0..<cnt] (subBody offs ex strides k)) ni
      = forLoop [0..<cnt] (subBody offs ex strides j) nj"
    by (simp only: forLoop_Suc IH option.case)
  also have "\<dots> = Some (nj[j := ?F j])"
    unfolding subInner_result[OF pre] rowj ..
  also have "nj[j := ?F j] = map ?F [0..<Suc j] @ drop (Suc j) ni"
    unfolding nj_def by (rule upd_prefix[OF j, of ?F])
  finally show ?case .
qed

lemma makeArraySubNeighborhood_result:
  assumes "N \<le> 15" "length offs < 2 ^ 32" "2 ^ (2 * N) \<le> length ex"
    and "\<forall>k < 2 ^ (2 * N). length offs \<le> length (ex ! k)"
  shows "makeArraySubNeighborhood N offs ex strides ni
     = Some (map (\<lambda>k. resize (2 ^ (2 * N)) [] ni ! k
                      @ map (\<lambda>l. dot (offs ! l) strides) (filter (\<lambda>l. ex ! k ! l) [0..<length offs]))
               [0..<2 ^ (2 * N)])"
proof -
  have sz: "unat (push_bit (2 * N) 1 :: uint) = 2 ^ (2 * N)" by (rule tableSize[OF assms(1)])
  have cnt: "unat (word_of_nat (length offs) :: uint) = length offs"
    using assms(2) by (simp add: unat_of_nat)
  have pre: "length (resize (2 ^ (2 * N)) [] ni) = 2 ^ (2 * N)" "2 ^ (2 * N) \<le> length ex"
      "\<forall>k < 2 ^ (2 * N). length offs \<le> length (ex ! k)" "length offs \<le> length offs"
      "(2::nat) ^ (2 * N) \<le> 2 ^ (2 * N)"
    using assms(3,4) by (simp_all add: length_resize)
  show ?thesis
    unfolding makeArraySubNeighborhood_def Let_def sz cnt subOuter_result[OF pre]
    by (simp add: length_resize)
qed

text \<open>
  C8: for every border code \<open>k\<close> in \<open>[0, 2^(2N))\<close> and every stride vector, the row
  \<open>neighborIndices[k]\<close> that \<open>makeArraySubNeighborhood\<close> builds from the canonical offsets
  and the existence table (into a default-constructed \<open>neighborIndices\<close>) is the sequence of
  \<open>dot(offset[l], strides)\<close> over the indices \<open>l\<close>, ascending, with \<open>neighborExists[k][l]\<close>
  true; position by position it is the dot product of \<open>neighborOffsets[k]\<close> with the strides.
\<close>

theorem flat_stride_table:
  assumes "1 \<le> N" and "N \<le> 15" and "k < 2 ^ (2 * N)"
  shows "\<exists>t' ni. makeArrayNeighborhood N nt t = Some t'
     \<and> makeArraySubNeighborhood N (neighborOffsets t' ! 0) (neighborExists t') strides [] = Some ni
     \<and> k < length ni
     \<and> ni ! k = map (\<lambda>l. dot (neighborOffsets t' ! 0 ! l) strides)
                   (filter (\<lambda>l. neighborExists t' ! k ! l) [0..<length (neighborOffsets t' ! 0)])
     \<and> length (ni ! k) = length (neighborOffsets t' ! k)
     \<and> (\<forall>i < length (ni ! k). ni ! k ! i = dot (neighborOffsets t' ! k ! i) strides)"
proof -
  let ?sz = "(2::nat) ^ (2 * N)"
  let ?offs = "neighborhoodOffsets N nt []"
  let ?E = "\<lambda>k. neighborhoodExists N nt [] (of_nat k)"
  from assms obtain t' where t': "makeArrayNeighborhood N nt t = Some t'"
    and no0: "neighborOffsets t' ! 0 = ?offs"
    and nok: "neighborOffsets t' ! k =
          (if 0 < k then map (\<lambda>l. ?offs ! l) (filter (\<lambda>l. ?E k ! l) [0..<length ?offs]) else ?offs)"
    and nek: "neighborExists t' ! k = ?E k"
    by (rule makeArrayNeighborhood_rows[of N k nt t]) blast
  have ne: "neighborExists t' = map ?E [0..<?sz]"
    using makeArrayNeighborhood_result[OF assms(1,2), of nt t] t' by auto
  have len: "length (?E k') = length ?offs" for k'
    by (rule length_neighborhoodExists[OF assms(1)])
  have fits: "length ?offs < 2 ^ 32"
    by (rule neighborCount_bound[OF assms(1,2)])
  have pre: "?sz \<le> length (neighborExists t')"
      "\<forall>k' < ?sz. length ?offs \<le> length (neighborExists t' ! k')"
    by (simp_all add: ne len)
  define ni where "ni = map (\<lambda>k. resize ?sz [] [] ! k
       @ map (\<lambda>l. dot (?offs ! l) strides) (filter (\<lambda>l. neighborExists t' ! k ! l) [0..<length ?offs]))
     [0..<?sz]"
  have sub: "makeArraySubNeighborhood N (neighborOffsets t' ! 0) (neighborExists t') strides [] = Some ni"
    unfolding no0 ni_def by (rule makeArraySubNeighborhood_result[OF assms(2) fits pre])
  have "resize ?sz [] ([] :: int list list) ! k = []"
    using assms(3) by (simp add: resize_def)
  then have row: "ni ! k = map (\<lambda>l. dot (?offs ! l) strides) (filter (\<lambda>l. ?E k ! l) [0..<length ?offs])"
    using assms(3) by (simp add: ni_def nek)
  have dots: "ni ! k = map (\<lambda>off. dot off strides) (neighborOffsets t' ! k)"
  proof (cases "0 < k")
    case True
    then show ?thesis by (simp add: row nok comp_def)
  next
    case False
    then have k0: "k = 0" by simp
    have all: "filter (\<lambda>l. ?E k ! l) [0..<length ?offs] = [0..<length ?offs]"
      using filter_interior[of N nt] len[of 0] by (simp add: k0)
    have nk: "neighborOffsets t' ! k = ?offs" unfolding nok using False by simp
    have row0: "ni ! k = map (\<lambda>l. dot (?offs ! l) strides) [0..<length ?offs]"
      by (simp only: row all)
    have "map (\<lambda>l. dot (?offs ! l) strides) [0..<length ?offs]
        = map (\<lambda>off. dot off strides) (map (\<lambda>l. ?offs ! l) [0..<length ?offs])"
      by (simp add: comp_def)
    also have "\<dots> = map (\<lambda>off. dot off strides) ?offs" by (simp only: map_nth)
    finally show ?thesis unfolding row0 nk .
  qed
  have kl: "k < length ni" using assms(3) by (simp add: ni_def)
  have lenk: "length (ni ! k) = length (neighborOffsets t' ! k)" by (simp add: dots)
  have pos: "\<forall>i < length (ni ! k). ni ! k ! i = dot (neighborOffsets t' ! k ! i) strides"
    by (simp add: dots)
  have row': "ni ! k = map (\<lambda>l. dot (neighborOffsets t' ! 0 ! l) strides)
                   (filter (\<lambda>l. neighborExists t' ! k ! l) [0..<length (neighborOffsets t' ! 0)])"
    unfolding no0 nek by (rule row)
  show ?thesis
    using t' sub kl row' lenk pos by blast
qed

theorem flat_stride_table_witness:
  "(1::nat) \<le> 1 \<and> (1::nat) \<le> 15 \<and> (1::nat) < 2 ^ (2 * 1)
   \<and> (\<exists>t' ni. makeArrayNeighborhood 1 DirectNeighborhood emptyTables = Some t'
         \<and> makeArraySubNeighborhood 1 (neighborOffsets t' ! 0) (neighborExists t') [7] [] = Some ni
         \<and> ni = [[- 7, 7], [7], [- 7], []]
         \<and> neighborOffsets t' ! 1 = [[1]]
         \<and> (\<forall>i < length (ni ! 1). ni ! 1 ! i = dot (neighborOffsets t' ! 1 ! i) [7]))"
proof -
  have run: "makeArrayNeighborhood (Suc 0) DirectNeighborhood emptyTables = Some
     \<lparr>neighborOffsets = [[[- 1], [1]], [[1]], [[- 1]], []],
      neighborExists = [[True, True], [False, True], [True, False], [False, False]],
      causalNeighborExists = [[True, False], [False, False], [True, False], [False, False]],
      anticausalNeighborExists = [[False, True], [False, True], [False, False], [False, False]],
      neighborIndexLookup = [[0, 1], [1], [0], []]\<rparr>"
    by code_simp
  have sub: "makeArraySubNeighborhood (Suc 0) [[- 1], [1]]
       [[True, True], [False, True], [True, False], [False, False]] [7] []
     = Some [[- 7, 7], [7], [- 7], []]"
    by code_simp
  show ?thesis
    using flat_stride_table[of 1 1 DirectNeighborhood emptyTables "[7]"]
    by (auto simp: run sub)
qed

section \<open>Building the tables twice\<close>

text \<open>
  What a second call of \<open>makeArrayNeighborhood\<close> on the containers of a first call does:
  four tables are rebuilt as they were, and every row of \<open>neighborIndexLookup\<close> gets the
  indices of the existing neighbors appended once more.
\<close>

lemma resize_same_length: "length xs = n \<Longrightarrow> resize n v xs = xs"
  by (simp add: resize_def)

lemma makeArrayNeighborhood_again:
  assumes "1 \<le> N" and "N \<le> 15" and "k < 2 ^ (2 * N)"
    and "makeArrayNeighborhood N nt t = Some t1"
  shows "\<exists>t2. makeArrayNeighborhood N nt t1 = Some t2
     \<and> neighborOffsets t2 = neighborOffsets t1 \<and> neighborExists t2 = neighborExists t1
     \<and> causalNeighborExists t2 = causalNeighborExists t1
     \<and> anticausalNeighborExists t2 = anticausalNeighborExists t1
     \<and> neighborIndexLookup t2 ! k
          = neighborIndexLookup t1 ! k
            @ map int (filter (\<lambda>l. neighborExists t1 ! k ! l) [0..<length (neighborExists t1 ! k)])"
proof -
  note r1 = makeArrayNeighborhood_result[OF assms(1,2), of nt t]
  note r2 = makeArrayNeighborhood_result[OF assms(1,2), of nt t1]
  have len: "length (neighborhoodExists N nt [] k') = length (neighborhoodOffsets N nt [])" for k'
    by (rule length_neighborhoodExists[OF assms(1)])
  have l1: "length (neighborIndexLookup t1) = 2 ^ (2 * N)"
    using r1 assms(4) by auto
  have e1: "neighborExists t1 ! k = neighborhoodExists N nt [] (of_nat k)"
    using r1 assms(3,4) by auto
  have "resize (2 ^ (2 * N)) [] (neighborIndexLookup t1) ! k = neighborIndexLookup t1 ! k"
    by (simp only: resize_same_length[OF l1])
  then show ?thesis
    using r1 assms(3,4) unfolding r2 e1 len by auto
qed

text \<open>
  C9 (the code at the failing input): a second call of \<open>makeArrayNeighborhood\<close> and of
  \<open>makeArraySubNeighborhood\<close> with the containers filled by the first call.  The rows of
  \<open>neighborOffsets\<close> and \<open>neighborExists\<close> are cleared and the causal and anticausal rows
  are overwritten, but \<open>neighborIndexLookup[k]\<close> and \<open>neighborIndices[k]\<close> are only
  appended to: every index and every flat stride is listed twice.
\<close>

theorem rebuild_appends_to_lookup_tables:
  "makeArrayNeighborhood 1 DirectNeighborhood emptyTables = Some
     \<lparr>neighborOffsets = [[[- 1], [1]], [[1]], [[- 1]], []],
      neighborExists = [[True, True], [False, True], [True, False], [False, False]],
      causalNeighborExists = [[True, False], [False, False], [True, False], [False, False]],
      anticausalNeighborExists = [[False, True], [False, True], [False, False], [False, False]],
      neighborIndexLookup = [[0, 1], [1], [0], []]\<rparr>
   \<and> makeArrayNeighborhood 1 DirectNeighborhood
     \<lparr>neighborOffsets = [[[- 1], [1]], [[1]], [[- 1]], []],
      neighborExists = [[True, True], [False, True], [True, False], [False, False]],
      causalNeighborExists = [[True, False], [False, False], [True, False], [False, False]],
      anticausalNeighborExists = [[False, True], [False, True], [False, False], [False, False]],
      neighborIndexLookup = [[0, 1], [1], [0], []]\<rparr> = Some
     \<lparr>neighborOffsets = [[[- 1], [1]], [[1]], [[- 1]], []],
      neighborExists = [[True, True], [False, True], [True, False], [False, False]],
      causalNeighborExists = [[True, False], [False, False], [True, False], [False, False]],
      anticausalNeighborExists = [[False, True], [False, True], [False, False], [False, False]],
      neighborIndexLookup = [[0, 1, 0, 1], [1, 1], [0, 0], []]\<rparr>
   \<and> makeArraySubNeighborhood 1 [[- 1], [1]]
       [[True, True], [False, True], [True, False], [False, False]] [7] []
     = Some [[- 7, 7], [7], [- 7], []]
   \<and> makeArraySubNeighborhood 1 [[- 1], [1]]
       [[True, True], [False, True], [True, False], [False, False]] [7] [[- 7, 7], [7], [- 7], []]
     = Some [[- 7, 7, - 7, 7], [7, 7], [- 7, - 7], []]"
  by code_simp

end
